theory Spec2Isabelle
  imports Main "HOL-Library.Sublist"
begin

section \<open>Python strings\<close>

text \<open>
  A Python \<open>str\<close> is a sequence of Unicode code points, so a string is a list of
  natural numbers, one per code point. \<open>str ''abc''\<close> is the string of an ASCII literal.
  Python's \<open>a in b\<close> on strings is \<^const>\<open>sublist\<close> (a contiguous occurrence).
\<close>

type_synonym codepoint = nat
type_synonym pystr = "codepoint list"

abbreviation (input) str :: "string \<Rightarrow> pystr" where
  "str s \<equiv> map of_char s"

text \<open>
  \<open>str.isspace\<close> per code point, the set \<open>str.strip()\<close> removes: U+0009..U+000D,
  U+001C..U+0020, U+0085, U+00A0, U+1680, U+2000..U+200A, U+2028, U+2029, U+202F,
  U+205F, U+3000.
\<close>

definition py_isspace :: "codepoint \<Rightarrow> bool" where
  "py_isspace c \<longleftrightarrow>
     (9 \<le> c \<and> c \<le> 13) \<or> (28 \<le> c \<and> c \<le> 32) \<or> c = 133 \<or> c = 160 \<or> c = 5760 \<or>
     (8192 \<le> c \<and> c \<le> 8202) \<or> c = 8232 \<or> c = 8233 \<or> c = 8239 \<or> c = 8287 \<or> c = 12288"

text \<open>\<open>s.strip()\<close> and \<open>s.strip(chars)\<close>: drop the characters of a set from both ends.\<close>

definition strip_where :: "(codepoint \<Rightarrow> bool) \<Rightarrow> pystr \<Rightarrow> pystr" where
  "strip_where P s = rev (dropWhile P (rev (dropWhile P s)))"

definition py_strip :: "pystr \<Rightarrow> pystr" where
  "py_strip s = strip_where py_isspace s"

definition py_strip_chars :: "pystr \<Rightarrow> pystr \<Rightarrow> pystr" where
  "py_strip_chars chars s = strip_where (\<lambda>c. c \<in> set chars) s"

text \<open>
  \<open>s.split(sep)\<close> for a non-empty separator: cut at every occurrence, scanning from the
  left; \<open>acc\<close> holds the current piece, reversed. (Python raises on an empty separator;
  every separator of the source is a non-empty literal.)
\<close>

fun split_from :: "pystr \<Rightarrow> pystr \<Rightarrow> pystr \<Rightarrow> pystr list" where
  "split_from sep acc [] = [rev acc]"
| "split_from sep acc (c # cs) =
     (if sep \<noteq> [] \<and> prefix sep (c # cs)
      then rev acc # split_from sep [] (drop (length sep) (c # cs))
      else split_from sep (c # acc) cs)"

definition py_split :: "pystr \<Rightarrow> pystr \<Rightarrow> pystr list" where
  "py_split sep s = split_from sep [] s"

text \<open>
  \<open>s.upper()\<close> maps every code point to its full upper-case mapping and concatenates.
  On ASCII that is \<open>a..z\<close> to \<open>A..Z\<close>; the mapping of the code points beyond ASCII is
  the Unicode character database's, which is not part of the repository: the parameter
  \<open>up\<close>.
\<close>

definition upper_char :: "(codepoint \<Rightarrow> pystr) \<Rightarrow> codepoint \<Rightarrow> pystr" where
  "upper_char up c = (if 97 \<le> c \<and> c \<le> 122 then [c - 32] else if c < 128 then [c] else up c)"

definition py_upper :: "(codepoint \<Rightarrow> pystr) \<Rightarrow> pystr \<Rightarrow> pystr" where
  "py_upper up s = concat (map (upper_char up) s)"

text \<open>\<open>s.replace(" ", "_")\<close>: a one-character pattern, so a map over the code points.\<close>

definition replace_space :: "pystr \<Rightarrow> pystr" where
  "replace_space s = map (\<lambda>c. if c = 32 then 95 else c) s"

text \<open>The f-string rendering of a value that is a string or \<open>None\<close>.\<close>

definition py_format :: "pystr option \<Rightarrow> pystr" where
  "py_format v = (case v of None \<Rightarrow> str ''None'' | Some s \<Rightarrow> s)"

text \<open>Truthiness of a value that is a string or \<open>None\<close>: \<open>None\<close> and \<open>""\<close> are falsy.\<close>

definition truthy :: "pystr option \<Rightarrow> bool" where
  "truthy v = (case v of None \<Rightarrow> False | Some s \<Rightarrow> s \<noteq> [])"

section \<open>Relation sanitizer and grouping (\<open>add_triples\<close>, first loop)\<close>

text \<open>
  \<open>re.sub(r"[^a-zA-Z0-9_]", "", rel.replace(" ", "_")).upper()\<close>: the class
  \<open>[a-zA-Z0-9_]\<close> is ASCII only (the pattern has no flags), and substituting the empty
  string for every character outside it is a filter.
\<close>

definition word_char :: "codepoint \<Rightarrow> bool" where
  "word_char c \<longleftrightarrow> (97 \<le> c \<and> c \<le> 122) \<or> (65 \<le> c \<and> c \<le> 90) \<or> (48 \<le> c \<and> c \<le> 57) \<or> c = 95"

definition sanitize :: "(codepoint \<Rightarrow> pystr) \<Rightarrow> pystr \<Rightarrow> pystr" where
  "sanitize up rel = py_upper up (filter word_char (replace_space rel))"

type_synonym triple = "pystr \<times> pystr \<times> pystr"

text \<open>
  \<open>grouped_triples\<close> is a \<open>defaultdict(list)\<close>: a dictionary that keeps the order in
  which its keys were first inserted, here an association list.
  \<open>grouped_triples[k].append(v)\<close> is \<open>append_group\<close>.
\<close>

type_synonym groups = "(pystr \<times> (pystr \<times> pystr) list) list"

fun append_group :: "pystr \<Rightarrow> pystr \<times> pystr \<Rightarrow> groups \<Rightarrow> groups" where
  "append_group k v [] = [(k, [v])]"
| "append_group k v ((k', vs) # gs) =
     (if k = k' then (k', vs @ [v]) # gs else (k', vs) # append_group k v gs)"

definition group_step :: "(codepoint \<Rightarrow> pystr) \<Rightarrow> triple \<Rightarrow> groups \<Rightarrow> groups" where
  "group_step up t gs =
     (case t of (e1, rel, e2) \<Rightarrow>
        let sanitized_rel = sanitize up rel
        in if sanitized_rel \<noteq> [] then append_group sanitized_rel (e1, e2) gs else gs)"

definition group_triples :: "(codepoint \<Rightarrow> pystr) \<Rightarrow> triple list \<Rightarrow> groups" where
  "group_triples up triples = fold (group_step up) triples []"

section \<open>The graph store\<close>

text \<open>
  The Neo4j store as the statements of the source see it: nodes with an identity, labels
  and a \<open>name\<close> property (absent: \<open>None\<close>), and directed, typed relationships between
  node identities. Nothing keeps two nodes from carrying the same name, or two
  relationships from joining the same nodes with the same type: whether that happens is
  what the statements decide.
\<close>

record node =
  n_id :: nat
  n_labels :: "pystr list"
  n_name :: "pystr option"

record rel =
  r_start :: nat
  r_type :: pystr
  r_end :: nat

record graph =
  g_nodes :: "node list"
  g_rels :: "rel list"

definition empty_graph :: graph where
  "empty_graph = \<lparr>g_nodes = [], g_rels = []\<rparr>"

definition fresh_id :: "graph \<Rightarrow> nat" where
  "fresh_id g = Suc (Max (insert 0 (n_id ` set (g_nodes g))))"

text \<open>The one node label the source uses.\<close>

definition Entity :: pystr where
  "Entity = str ''Entity''"

definition is_entity :: "pystr \<Rightarrow> node \<Rightarrow> bool" where
  "is_entity x n \<longleftrightarrow> Entity \<in> set (n_labels n) \<and> n_name n = Some x"

text \<open>
  \<open>MERGE (e:Entity {name: x})\<close>: bind \<open>e\<close> to every node with the label and the name;
  if there is none, create one and bind \<open>e\<close> to it. The result is the identities bound
  (one row each) and the store.
\<close>

definition merge_node :: "pystr \<Rightarrow> graph \<Rightarrow> nat list \<times> graph" where
  "merge_node x g =
     (case filter (is_entity x) (g_nodes g) of
        [] \<Rightarrow> (let i = fresh_id g
               in ([i], g\<lparr>g_nodes := g_nodes g @ [\<lparr>n_id = i, n_labels = [Entity], n_name = Some x\<rparr>]\<rparr>))
      | m # ms \<Rightarrow> (map n_id (m # ms), g))"

text \<open>
  \<open>MERGE (e1)-[:`rel_type`]->(e2)\<close> on bound nodes: create the relationship unless one of
  that type already runs from \<open>e1\<close> to \<open>e2\<close>.
\<close>

definition merge_rel :: "pystr \<Rightarrow> nat \<times> nat \<Rightarrow> graph \<Rightarrow> graph" where
  "merge_rel rel_type ab g =
     (case ab of (a, b) \<Rightarrow>
        if \<exists>r \<in> set (g_rels g). r_start r = a \<and> r_type r = rel_type \<and> r_end r = b then g
        else g\<lparr>g_rels := g_rels g @ [\<lparr>r_start = a, r_type = rel_type, r_end = b\<rparr>]\<rparr>)"

text \<open>
  One row of \<open>UNWIND $pairs as pair\<close> through the three \<open>MERGE\<close> clauses of the
  statement of \<open>add_triples\<close>; the rows are run one after the other.
\<close>

definition merge_pair :: "pystr \<Rightarrow> pystr \<times> pystr \<Rightarrow> graph \<Rightarrow> graph" where
  "merge_pair rel_type pair g =
     (case pair of (x, y) \<Rightarrow>
        let (as, g1) = merge_node x g;
            (bs, g2) = merge_node y g1
        in fold (merge_rel rel_type) (List.product as bs) g2)"

text \<open>
  The statements the source sends, by their parameters: the upsert of \<open>add_triples\<close>
  (its interpolated relation type and \<open>$pairs\<close>), the two catalog calls of
  \<open>get_schema\<close>, and the neighbourhood query of \<open>search_graph\<close> (\<open>$entities\<close>).
\<close>

datatype statement =
  MergePairs pystr "(pystr \<times> pystr) list"
| CallLabels
| CallRelationshipTypes
| MatchNeighbours "pystr list"

text \<open>
  A connection: the store behind it and the statements issued over it so far, in order.
  The driver calls are taken to succeed; a failure of the store is an exception of the
  driver and not modelled.
\<close>

record connection =
  db :: graph
  issued :: "statement list"

definition run_write :: "statement \<Rightarrow> graph \<Rightarrow> graph" where
  "run_write q g = (case q of MergePairs rel_type pairs \<Rightarrow> fold (merge_pair rel_type) pairs g | _ \<Rightarrow> g)"

definition execute_write :: "statement \<Rightarrow> connection \<Rightarrow> connection" where
  "execute_write q c = c\<lparr>db := run_write q (db c), issued := issued c @ [q]\<rparr>"

definition is_write :: "statement \<Rightarrow> bool" where
  "is_write q = (case q of MergePairs _ _ \<Rightarrow> True | _ \<Rightarrow> False)"

section \<open>Triple store writer (\<open>add_triples\<close>)\<close>

definition add_triples :: "(codepoint \<Rightarrow> pystr) \<Rightarrow> triple list \<Rightarrow> connection \<Rightarrow> connection" where
  "add_triples up triples c =
     fold (\<lambda>(rel_type, pairs). execute_write (MergePairs rel_type pairs)) (group_triples up triples) c"

section \<open>Schema introspection (\<open>get_schema\<close>)\<close>

text \<open>
  \<open>CALL db.labels()\<close> and \<open>CALL db.relationshipTypes()\<close> yield one column each; the
  comprehension over \<open>item["label"]\<close> is that column. The catalog is read off the store:
  the labels and types in use.
\<close>

definition db_labels :: "graph \<Rightarrow> pystr list" where
  "db_labels g = remdups (concat (map n_labels (g_nodes g)))"

definition db_relationship_types :: "graph \<Rightarrow> pystr list" where
  "db_relationship_types g = remdups (map r_type (g_rels g))"

record schema =
  s_node_labels :: "pystr list"
  s_relationship_types :: "pystr list"

definition get_schema :: "connection \<Rightarrow> schema \<times> connection" where
  "get_schema c =
     (let c1 = c\<lparr>issued := issued c @ [CallLabels]\<rparr>;
          labels = db_labels (db c1);
          c2 = c1\<lparr>issued := issued c1 @ [CallRelationshipTypes]\<rparr>;
          rel_types = db_relationship_types (db c2)
      in (\<lparr>s_node_labels = labels, s_relationship_types = rel_types\<rparr>, c2))"

section \<open>Query translator and safety guard (\<open>generate_cypher\<close>)\<close>

text \<open>
  The text-generation capability is a black box: a function from the prompt to the text
  it returns, or \<open>None\<close> when the call raises. The prompt is the f-string of
  \<open>Modules/DBUtils.py\<close>, character by character; the one of \<open>graph_db.py\<close> has the
  same sentences with other line breaks and a \<open>---\<close> line before the question. Nothing
  after the model call reads the prompt. \<open>repr\<close> is Python's rendering of a list of
  strings.
\<close>

type_synonym llm = "pystr \<Rightarrow> pystr option"

definition cypher_prompt :: "(pystr list \<Rightarrow> pystr) \<Rightarrow> schema \<Rightarrow> pystr \<Rightarrow> pystr" where
  "cypher_prompt repr schema question =
     str ''\<newline>        You are a Neo4j Cypher expert. Convert the user's natural language \<newline>'' @
     str ''        question into a single Cypher query\<newline>'' @
     str ''        using ONLY the provided graph schema. Return only the Cypher query,\<newline>'' @
     str ''         no explanation.\<newline>\<newline>'' @
     str ''        **Graph Schema:**\<newline>'' @
     str ''        - Node labels: '' @ repr (s_node_labels schema) @ str ''\<newline>'' @
     str ''        - Relationship types: '' @ repr (s_relationship_types schema) @ str ''\<newline>\<newline>'' @
     str ''        **Rules:**\<newline>'' @
     str ''        1. Always match nodes by performing case-insensitive search on the \<newline>'' @
     str ''            'name' property using toLower().\<newline>'' @
     str ''        2. Only use the node labels and relationship types from the schema.\<newline>'' @
     str ''        3. Never use write operations (CREATE, SET, DELETE, MERGE). \<newline>'' @
     str ''            Only read queries.\<newline>'' @
     str ''        4. The primary node label is 'Entity', and all nodes have \<newline>'' @
     str ''            a 'name' property.\<newline>'' @
     str ''        5. Prefer queries that include both:\<newline>'' @
     str ''           - The matching node(s), and\<newline>'' @
     str ''           - Their directly connected neighbors and relationships.\<newline>\<newline>'' @
     str ''        \<newline>'' @
     str ''        Question: '' @ question @ str ''                        \<newline>'' @
     str ''        ''"

text \<open>
  How a call ends other than by returning its result. In \<open>generate_cypher\<close> every
  exception of the \<open>try\<close> block is caught, reported with \<open>st.error\<close> and turned into
  the return value \<open>None\<close>: \<open>Inl\<close> of the exception. \<open>DisallowedWriteOperation\<close> is the
  \<open>ValueError\<close> the guard raises, \<open>GenerationError\<close> an exception of the model call,
  \<open>IndexError\<close> the one of \<open>split(...)[1]\<close>.
\<close>

datatype failure = DisallowedWriteOperation | GenerationError | IndexError

definition fence :: pystr where
  "fence = str ''```''"

definition write_ops :: "pystr list" where
  "write_ops = [str ''CREATE'', str ''SET'', str ''DELETE'', str ''MERGE'']"

text \<open>
  The candidate query: \<open>model.generate(prompt).strip()\<close>, and when it holds a fence,
  \<open>cypher_query.split("```")[1].strip("cypher\n").strip()\<close>.
\<close>

definition extract_query :: "pystr \<Rightarrow> failure + pystr" where
  "extract_query out =
     (let cypher_query = py_strip out
      in if sublist fence cypher_query
         then (case py_split fence cypher_query of
                 _ # segment # _ \<Rightarrow> Inr (py_strip (py_strip_chars (str ''cypher\<newline>'') segment))
               | _ \<Rightarrow> Inl IndexError)
         else Inr cypher_query)"

definition has_write_op :: "(codepoint \<Rightarrow> pystr) \<Rightarrow> pystr \<Rightarrow> bool" where
  "has_write_op up cypher_query = list_ex (\<lambda>op. sublist op (py_upper up cypher_query)) write_ops"

definition generate_cypher ::
  "(codepoint \<Rightarrow> pystr) \<Rightarrow> (pystr list \<Rightarrow> pystr) \<Rightarrow> llm \<Rightarrow> pystr \<Rightarrow> connection \<Rightarrow> (failure + pystr) \<times> connection" where
  "generate_cypher up repr model question c =
     (let (schema, c') = get_schema c;
          prompt = cypher_prompt repr schema question
      in (case model prompt of
            None \<Rightarrow> (Inl GenerationError, c')
          | Some out \<Rightarrow>
              (case extract_query out of
                 Inl e \<Rightarrow> (Inl e, c')
               | Inr cypher_query \<Rightarrow>
                   if has_write_op up cypher_query then (Inl DisallowedWriteOperation, c')
                   else (Inr cypher_query, c'))))"

section \<open>Entity-anchored subgraph retrieval (\<open>search_graph\<close>)\<close>

text \<open>
  Cypher's \<open>toLower\<close>: \<open>A..Z\<close> to \<open>a..z\<close> on ASCII, the parameter \<open>lo\<close> beyond.
\<close>

definition cy_lower :: "(codepoint \<Rightarrow> pystr) \<Rightarrow> pystr \<Rightarrow> pystr" where
  "cy_lower lo s = concat (map (\<lambda>c. if 65 \<le> c \<and> c \<le> 90 then [c + 32] else if c < 128 then [c] else lo c) s)"

text \<open>A result row is \<open>dict(record)\<close>: column name to value, a string or \<open>None\<close>.\<close>

type_synonym row = "pystr \<rightharpoonup> pystr option"

definition record_row :: "node \<Rightarrow> rel \<Rightarrow> node \<Rightarrow> row" where
  "record_row n r m =
     [str ''node'' \<mapsto> n_name n, str ''relationship'' \<mapsto> Some (r_type r), str ''target'' \<mapsto> n_name m]"

text \<open>
  \<open>(n)-[r]-(m)\<close>: the relationships at \<open>n\<close> in either direction with the node at their
  other end (a loop at \<open>n\<close> once).
\<close>

definition expand :: "node \<Rightarrow> graph \<Rightarrow> (rel \<times> node) list" where
  "expand n g =
     [(r, m). r \<leftarrow> g_rels g, m \<leftarrow> g_nodes g,
        (r_start r = n_id n \<and> r_end r = n_id m) \<or>
        (r_end r = n_id n \<and> r_start r = n_id m \<and> r_start r \<noteq> r_end r)]"

definition name_contains :: "(codepoint \<Rightarrow> pystr) \<Rightarrow> pystr \<Rightarrow> node \<Rightarrow> bool" where
  "name_contains lo entityName n =
     (case n_name n of None \<Rightarrow> False | Some nm \<Rightarrow> sublist (cy_lower lo entityName) (cy_lower lo nm))"

text \<open>
  \<open>UNWIND $entities as entityName MATCH (n:Entity)-[r]-(m) WHERE toLower(n.name) CONTAINS
  toLower(entityName) RETURN n.name as node, type(r) as relationship, m.name as target\<close>,
  before its \<open>LIMIT\<close>. The store may return the matches in any order; the model fixes one.
\<close>

definition match_neighbours :: "(codepoint \<Rightarrow> pystr) \<Rightarrow> pystr list \<Rightarrow> graph \<Rightarrow> row list" where
  "match_neighbours lo entities g =
     [record_row n r m.
        entityName \<leftarrow> entities, n \<leftarrow> g_nodes g,
        Entity \<in> set (n_labels n) \<and> name_contains lo entityName n,
        (r, m) \<leftarrow> expand n g]"

definition run_read :: "(codepoint \<Rightarrow> pystr) \<Rightarrow> statement \<Rightarrow> graph \<Rightarrow> row list" where
  "run_read lo q g =
     (case q of MatchNeighbours entities \<Rightarrow> take 25 (match_neighbours lo entities g) | _ \<Rightarrow> [])"

definition execute_read :: "(codepoint \<Rightarrow> pystr) \<Rightarrow> statement \<Rightarrow> connection \<Rightarrow> row list \<times> connection" where
  "execute_read lo q c = (run_read lo q (db c), c\<lparr>issued := issued c @ [q]\<rparr>)"

text \<open>
  \<open>search_graph\<close> of \<open>Modules/DBUtils.py\<close>: the candidate entities are asked of the
  text-generation capability and read from its comma-separated answer. An exception of the
  model call is not caught here: \<open>Inl\<close> is the exception raised to the caller.
\<close>

definition entity_prompt :: "pystr \<Rightarrow> pystr" where
  "entity_prompt query_text =
     str ''\<newline>        Extract all key entities (people, organizations, locations) \<newline>'' @
     str ''        from the following question. \<newline>'' @
     str ''        Return them as a simple comma-separated list.\<newline>'' @
     str ''        \<newline>'' @
     str ''        Question: '' @ query_text @ str ''\<newline>'' @
     str ''        ''"

definition clean_entities :: "pystr \<Rightarrow> pystr list" where
  "clean_entities entity_string =
     [py_strip e. e \<leftarrow> py_split (str '','') entity_string, py_strip e \<noteq> []]"

definition search_graph ::
  "(codepoint \<Rightarrow> pystr) \<Rightarrow> llm \<Rightarrow> pystr \<Rightarrow> connection \<Rightarrow> (failure + row list) \<times> connection" where
  "search_graph lo model query_text c =
     (case model (entity_prompt query_text) of
        None \<Rightarrow> (Inl GenerationError, c)
      | Some entity_string \<Rightarrow>
          (let entities = clean_entities entity_string
           in if entities = [] then (Inr [], c)
              else (case execute_read lo (MatchNeighbours entities) c of
                      (rows, c') \<Rightarrow> (Inr rows, c'))))"

text \<open>
  \<open>search_graph\<close> of \<open>graph_db.py\<close>: the candidates are the named entities of a spaCy
  document and its proper-noun tokens outside every entity span. The tagger \<open>nlp\<close> is a
  parameter; the set of candidates is kept as a list without repetitions (the order in
  which Python enumerates a set is not fixed).
\<close>

record span =
  ent_text :: pystr
  ent_start :: nat
  ent_end :: nat

record token =
  tok_text :: pystr
  tok_pos :: pystr
  tok_i :: nat

record doc =
  ents :: "span list"
  tokens :: "token list"

definition nlp_entities :: "doc \<Rightarrow> pystr list" where
  "nlp_entities d =
     remdups (map (\<lambda>ent. py_strip (ent_text ent)) (ents d) @
              [py_strip (tok_text t). t \<leftarrow> tokens d,
                 tok_pos t = str ''PROPN'' \<and>
                 \<not> list_ex (\<lambda>ent. ent_start ent \<le> tok_i t \<and> tok_i t < ent_end ent) (ents d)])"

definition search_graph_nlp ::
  "(codepoint \<Rightarrow> pystr) \<Rightarrow> (pystr \<Rightarrow> doc) \<Rightarrow> pystr \<Rightarrow> connection \<Rightarrow> row list \<times> connection" where
  "search_graph_nlp lo nlp query_text c =
     (let entities = nlp_entities (nlp query_text)
      in if entities = [] then ([], c)
         else execute_read lo (MatchNeighbours entities) c)"

section \<open>Visualization model builder (\<open>visualize_subgraph\<close>)\<close>

record vnode =
  v_id :: pystr
  v_label :: pystr
  v_name :: pystr

record vedge =
  e_id :: pystr
  e_source :: pystr
  e_target :: pystr
  e_label :: "pystr option"
  e_source_name :: pystr
  e_destination_name :: pystr

text \<open>The local variables of the loop of \<open>visualize_subgraph\<close>.\<close>

record viz =
  nodes :: "vnode list"
  edges :: "vedge list"
  node_ids :: "pystr set"
  edge_ids :: "pystr set"
  node_labels :: "pystr set"
  edge_labels :: "pystr option set"
  node_name_map :: "pystr \<rightharpoonup> pystr"

definition empty_viz :: viz where
  "empty_viz = \<lparr>nodes = [], edges = [], node_ids = {}, edge_ids = {}, node_labels = {},
                edge_labels = {}, node_name_map = Map.empty\<rparr>"

text \<open>\<open>row.get(key)\<close> and \<open>row.get(key, default)\<close>.\<close>

definition row_get :: "row \<Rightarrow> pystr \<Rightarrow> pystr option" where
  "row_get r k = (case r k of None \<Rightarrow> None | Some v \<Rightarrow> v)"

definition row_get_default :: "row \<Rightarrow> pystr \<Rightarrow> pystr option \<Rightarrow> pystr option" where
  "row_get_default r k d = (case r k of None \<Rightarrow> d | Some v \<Rightarrow> v)"

text \<open>The body of \<open>for n in [src, tgt]\<close>.\<close>

definition add_node :: "pystr \<Rightarrow> viz \<Rightarrow> viz" where
  "add_node n st =
     (if n \<notin> node_ids st
      then st\<lparr>nodes := nodes st @ [\<lparr>v_id = n, v_label = Entity, v_name = n\<rparr>],
              node_ids := insert n (node_ids st),
              node_labels := insert Entity (node_labels st),
              node_name_map := (node_name_map st)(n \<mapsto> n)\<rparr>
      else st)"

text \<open>\<open>edge_id = f"{src}-{rel}-{tgt}"\<close>.\<close>

definition edge_key :: "pystr \<Rightarrow> pystr option \<Rightarrow> pystr \<Rightarrow> pystr" where
  "edge_key src rel tgt = src @ str ''-'' @ py_format rel @ str ''-'' @ tgt"

definition add_edge :: "pystr \<Rightarrow> pystr option \<Rightarrow> pystr \<Rightarrow> viz \<Rightarrow> viz" where
  "add_edge src rel tgt st =
     (let edge_id = edge_key src rel tgt
      in if edge_id \<notin> edge_ids st
         then st\<lparr>edges := edges st @
                   [\<lparr>e_id = edge_id, e_source = src, e_target = tgt, e_label = rel,
                     e_source_name = src, e_destination_name = tgt\<rparr>],
                 edge_ids := insert edge_id (edge_ids st),
                 edge_labels := insert rel (edge_labels st)\<rparr>
         else st)"

text \<open>The body of \<open>for row in raw_data\<close>; \<open>continue\<close> leaves the state as it is.\<close>

definition visit_row :: "row \<Rightarrow> viz \<Rightarrow> viz" where
  "visit_row r st =
     (let src = row_get r (str ''node'');
          rel = row_get_default r (str ''relationship'') (Some (str ''RELATED_TO''));
          tgt = row_get r (str ''target'')
      in if \<not> truthy src \<or> \<not> truthy tgt then st
         else (case (src, tgt) of
                 (Some s, Some t) \<Rightarrow> add_edge s rel t (fold add_node [s, t] st)
               | _ \<Rightarrow> st))"

definition build_elements :: "row list \<Rightarrow> viz" where
  "build_elements raw_data = fold visit_row raw_data empty_viz"

text \<open>
  What \<open>visualize_subgraph\<close> shows: the warning, or the call of the rendering library
  with the elements and the labels its style descriptors are made from.
\<close>

datatype rendering =
  Warning pystr
| LinkAnalysis "vnode list" "vedge list" "pystr set" "pystr option set"

definition visualize_subgraph ::
  "(codepoint \<Rightarrow> pystr) \<Rightarrow> llm \<Rightarrow> pystr \<Rightarrow> connection \<Rightarrow> (failure + rendering) \<times> connection" where
  "visualize_subgraph lo model query_text c =
     (case search_graph lo model query_text c of
        (Inl e, c') \<Rightarrow> (Inl e, c')
      | (Inr raw_data, c') \<Rightarrow>
          if raw_data = [] then (Inr (Warning (str ''No visual data to display for this query.'')), c')
          else (let st = build_elements raw_data
                in (Inr (LinkAnalysis (nodes st) (edges st) (node_labels st) (edge_labels st)), c')))"

section \<open>Triple input parser (\<open>process_pdf_and_store\<close>)\<close>

text \<open>\<open>parts[i].strip().strip("'\"")\<close>.\<close>

definition clean_field :: "pystr \<Rightarrow> pystr" where
  "clean_field f = py_strip_chars [39, 34] (py_strip f)"

text \<open>The body of \<open>for line in lines\<close>: the triples the line adds to \<open>triples\<close>.\<close>

definition parse_line :: "pystr \<Rightarrow> triple list" where
  "parse_line line =
     (case py_split (str ''|'') line of
        [p0, p1, p2] \<Rightarrow>
          (let e1 = clean_field p0; rel = clean_field p1; e2 = clean_field p2
           in if e1 \<noteq> [] \<and> rel \<noteq> [] \<and> e2 \<noteq> [] then [(e1, rel, e2)] else [])
      | _ \<Rightarrow> [])"

definition parse_triples :: "pystr \<Rightarrow> triple list" where
  "parse_triples text = concat (map parse_line (py_split (str ''\<newline>'') (py_strip text)))"

datatype ingestion = NoStructuredData | Stored nat

definition process_pdf_and_store ::
  "(codepoint \<Rightarrow> pystr) \<Rightarrow> (pystr \<Rightarrow> 'pdf \<Rightarrow> pystr option) \<Rightarrow> pystr \<Rightarrow> 'pdf \<Rightarrow> connection
     \<Rightarrow> (failure + ingestion) \<times> connection" where
  "process_pdf_and_store up model ingestion_prompt pdf c =
     (case model ingestion_prompt pdf of
        None \<Rightarrow> (Inl GenerationError, c)
      | Some response_text \<Rightarrow>
          (let triples = parse_triples response_text
           in if triples = [] then (Inr NoStructuredData, c)
              else (Inr (Stored (length triples)), add_triples up triples c)))"

section \<open>Notions of the specification\<close>

text \<open>
  The words of the specification, as definitions of their own: what the theorems below
  compare the functions of the source with.
\<close>

subsection \<open>Sanitized identifiers\<close>

definition ascii_upper :: "codepoint \<Rightarrow> codepoint" where
  "ascii_upper c = (if 97 \<le> c \<and> c \<le> 122 then c - 32 else c)"

text \<open>
  "Replace whitespace with underscores, strip every other character outside
  \<open>[A-Za-z0-9_]\<close>, upper-case the result", for a given notion \<open>ws\<close> of whitespace.
\<close>

definition sanitize_by :: "(codepoint \<Rightarrow> bool) \<Rightarrow> pystr \<Rightarrow> pystr" where
  "sanitize_by ws label =
     map ascii_upper (filter word_char (map (\<lambda>c. if ws c then 95 else c) label))"

text \<open>The distinct sanitized relation types observed in a list of triples.\<close>

definition sanitized_types :: "(codepoint \<Rightarrow> pystr) \<Rightarrow> triple list \<Rightarrow> pystr set" where
  "sanitized_types up ts = (\<lambda>(e1, rel, e2). sanitize up rel) ` set ts - {[]}"

text \<open>The (subject, object) pairs of the triples of one sanitized type, in input order.\<close>

definition pairs_of :: "(codepoint \<Rightarrow> pystr) \<Rightarrow> pystr \<Rightarrow> triple list \<Rightarrow> (pystr \<times> pystr) list" where
  "pairs_of up k ts = [(e1, e2). (e1, rel, e2) \<leftarrow> ts, sanitize up rel = k]"

text \<open>The triples of the grouping example, and a connection to an empty store.\<close>

definition example_triples :: "triple list" where
  "example_triples =
     [(str ''A'', str ''founded'', str ''B''), (str ''A'', str ''Founded'', str ''B''),
      (str ''C'', str ''founded'', str ''D'')]"

definition new_connection :: connection where
  "new_connection = \<lparr>db = empty_graph, issued = []\<rparr>"

subsection \<open>Uniqueness in the store\<close>

text \<open>The names of the Entity nodes of a store, with repetitions.\<close>

definition named_entity :: "node \<Rightarrow> pystr list" where
  "named_entity n =
     (case n_name n of Some x \<Rightarrow> if Entity \<in> set (n_labels n) then [x] else [] | None \<Rightarrow> [])"

definition entity_names :: "graph \<Rightarrow> pystr list" where
  "entity_names g = concat (map named_entity (g_nodes g))"

text \<open>The number of Entity nodes with a given name.\<close>

definition entity_count :: "graph \<Rightarrow> pystr \<Rightarrow> nat" where
  "entity_count g x = length (filter (is_entity x) (g_nodes g))"

text \<open>
  The number of relationships of type \<open>t\<close> from an Entity node named \<open>x\<close> to an Entity
  node named \<open>y\<close>.
\<close>

definition edge_count :: "graph \<Rightarrow> pystr \<Rightarrow> pystr \<Rightarrow> pystr \<Rightarrow> nat" where
  "edge_count g x t y =
     length [r \<leftarrow> g_rels g. r_type r = t \<and>
               list_ex (\<lambda>n. is_entity x n \<and> n_id n = r_start r) (g_nodes g) \<and>
               list_ex (\<lambda>m. is_entity y m \<and> n_id m = r_end r) (g_nodes g)]"

text \<open>
  The invariants of the data model: node identities are unique, no two Entity nodes
  share a name, no relationship is stored twice.
\<close>

definition store_ok :: "graph \<Rightarrow> bool" where
  "store_ok g \<longleftrightarrow>
     distinct (map n_id (g_nodes g)) \<and> distinct (entity_names g) \<and> distinct (g_rels g)"

text \<open>The relationship \<open>MERGE\<close> creates.\<close>

definition the_rel :: "nat \<Rightarrow> pystr \<Rightarrow> nat \<Rightarrow> rel" where
  "the_rel a t b = \<lparr>r_start = a, r_type = t, r_end = b\<rparr>"

subsection \<open>Occurrence of a token, ignoring case\<close>

text \<open>Two code points that are equal, or the two cases of one ASCII letter.\<close>

definition ci_match :: "codepoint \<Rightarrow> codepoint \<Rightarrow> bool" where
  "ci_match t c \<longleftrightarrow>
     c = t \<or> (65 \<le> t \<and> t \<le> 90 \<and> c = t + 32) \<or> (97 \<le> t \<and> t \<le> 122 \<and> t = c + 32)"

fun ci_prefix :: "pystr \<Rightarrow> pystr \<Rightarrow> bool" where
  "ci_prefix [] s = True"
| "ci_prefix (t # ts) [] = False"
| "ci_prefix (t # ts) (c # cs) = (ci_match t c \<and> ci_prefix ts cs)"

text \<open>\<open>contains_ci tok s\<close>: the token occurs somewhere in \<open>s\<close>, in any mix of cases.\<close>

fun contains_ci :: "pystr \<Rightarrow> pystr \<Rightarrow> bool" where
  "contains_ci tok [] = (tok = [])"
| "contains_ci tok (c # cs) = (ci_prefix tok (c # cs) \<or> contains_ci tok cs)"

definition upper_letter :: "codepoint \<Rightarrow> bool" where
  "upper_letter c \<longleftrightarrow> 65 \<le> c \<and> c \<le> 90"

text \<open>A model answer with a fenced query whose string literal holds a write token.\<close>

definition fenced_create :: pystr where
  "fenced_create = str ''```cypher\<newline>MATCH (n) WHERE n.name = 'create' RETURN n\<newline>```''"

text \<open>A model answer with a fenced query that ends in a letter of \<open>cypher\<close>.\<close>

definition fenced_name :: pystr where
  "fenced_name = str ''```cypher\<newline>MATCH (n:Entity) RETURN n.name\<newline>```''"

subsection \<open>Fields of a parsed triple\<close>

definition quote_char :: "codepoint \<Rightarrow> bool" where
  "quote_char c \<longleftrightarrow> c = 39 \<or> c = 34"

text \<open>A field that is not empty and neither starts nor ends with a quote character.\<close>

definition unquoted :: "pystr \<Rightarrow> bool" where
  "unquoted f \<longleftrightarrow> f \<noteq> [] \<and> \<not> quote_char (hd f) \<and> \<not> quote_char (last f)"

text \<open>The line \<open>'John Doe'|IS_A|Director\<close>.\<close>

definition john_doe_line :: pystr where
  "john_doe_line = [39] @ str ''John Doe'' @ [39] @ str ''|IS_A|Director''"

subsection \<open>Example store and model answers\<close>

text \<open>
  An Entity \<open>A\<close> with nine relationships to an Entity \<open>B\<close>, and a model answer that
  names \<open>a\<close> three times: 27 rows match.
\<close>

definition fan_graph :: graph where
  "fan_graph =
     \<lparr>g_nodes = [\<lparr>n_id = 0, n_labels = [Entity], n_name = Some (str ''A'')\<rparr>,
                 \<lparr>n_id = 1, n_labels = [Entity], n_name = Some (str ''B'')\<rparr>],
      g_rels = map (\<lambda>t. \<lparr>r_start = 0, r_type = t, r_end = 1\<rparr>)
                 [str ''FOUNDED'', str ''OWNS'', str ''FUNDS'', str ''ADVISES'', str ''AUDITS'',
                  str ''SUED'', str ''FINED'', str ''HIRED'', str ''LEFT'']\<rparr>"

definition crowded_answer :: pystr where
  "crowded_answer = str ''a, a, a''"

definition blank_answer :: pystr where
  "blank_answer = str '' , ,''"

definition empty_doc :: doc where
  "empty_doc = \<lparr>ents = [], tokens = []\<rparr>"

subsection \<open>The visualization model\<close>

text \<open>
  The elements of a list in the order of their first occurrence, each once.
\<close>

fun first_occurrences :: "'a list \<Rightarrow> 'a list" where
  "first_occurrences [] = []"
| "first_occurrences (x # xs) = x # first_occurrences (filter (\<lambda>y. y \<noteq> x) xs)"

text \<open>A row with a source and a target name (neither \<open>None\<close> nor empty).\<close>

definition row_complete :: "row \<Rightarrow> bool" where
  "row_complete r \<longleftrightarrow> truthy (row_get r (str ''node'')) \<and> truthy (row_get r (str ''target''))"

text \<open>The names, the edge and the edge key a row contributes: none when it is skipped.\<close>

definition row_names :: "row \<Rightarrow> pystr list" where
  "row_names r =
     (case (row_get r (str ''node''), row_get r (str ''target'')) of
        (Some s, Some t) \<Rightarrow> if s \<noteq> [] \<and> t \<noteq> [] then [s, t] else []
      | _ \<Rightarrow> [])"

definition row_keys :: "row \<Rightarrow> pystr list" where
  "row_keys r =
     (case (row_get r (str ''node''), row_get r (str ''target'')) of
        (Some s, Some t) \<Rightarrow>
          if s \<noteq> [] \<and> t \<noteq> []
          then [edge_key s (row_get_default r (str ''relationship'') (Some (str ''RELATED_TO''))) t]
          else []
      | _ \<Rightarrow> [])"

text \<open>The identifier sets of the loop are the identifiers of the elements built so far.\<close>

definition nodes_inv :: "viz \<Rightarrow> bool" where
  "nodes_inv st \<longleftrightarrow> node_ids st = set (map v_id (nodes st))"

definition edges_inv :: "viz \<Rightarrow> bool" where
  "edges_inv st \<longleftrightarrow> edge_ids st = set (map e_id (edges st))"

text \<open>The (source, relationship, target) a row adds as an edge, and the loop's edge step on it.\<close>

definition row_edges :: "row \<Rightarrow> (pystr \<times> pystr option \<times> pystr) list" where
  "row_edges r =
     (case (row_get r (str ''node''), row_get r (str ''target'')) of
        (Some s, Some t) \<Rightarrow>
          if s \<noteq> [] \<and> t \<noteq> []
          then [(s, row_get_default r (str ''relationship'') (Some (str ''RELATED_TO'')), t)]
          else []
      | _ \<Rightarrow> [])"

definition put_edge :: "pystr \<times> pystr option \<times> pystr \<Rightarrow> viz \<Rightarrow> viz" where
  "put_edge e st = (case e of (s, rel, t) \<Rightarrow> add_edge s rel t st)"

definition key_of :: "pystr \<times> pystr option \<times> pystr \<Rightarrow> pystr" where
  "key_of e = (case e of (s, rel, t) \<Rightarrow> edge_key s rel t)"

text \<open>A row as \<open>search_graph\<close> returns it, and the rows of the example.\<close>

definition result_row :: "pystr \<Rightarrow> pystr \<Rightarrow> pystr \<Rightarrow> row" where
  "result_row a r b = [str ''node'' \<mapsto> Some a, str ''relationship'' \<mapsto> Some r, str ''target'' \<mapsto> Some b]"

definition example_rows :: "row list" where
  "example_rows =
     [result_row (str ''A'') (str ''FOUNDED'') (str ''B''),
      result_row (str ''A'') (str ''FOUNDED'') (str ''B''),
      result_row (str ''B'') (str ''LOCATED_IN'') (str ''C'')]"

text \<open>Two rows with different (source, relationship, target) and the same joined key.\<close>

definition collision_rows :: "row list" where
  "collision_rows =
     [result_row (str ''A-R-B'') (str ''R'') (str ''C''),
      result_row (str ''A'') (str ''R'') (str ''B-R-C'')]"




section \<open>The relation sanitizer\<close>

lemma py_upper_ascii: "\<forall>c \<in> set s. c < 128 \<Longrightarrow> py_upper up s = map ascii_upper s"
  by (induction s) (auto simp: py_upper_def upper_char_def ascii_upper_def)

lemma word_char_ascii: "word_char c \<Longrightarrow> c < 128"
  by (auto simp: word_char_def)

lemma sanitize_eq: "sanitize up rel = sanitize_by (\<lambda>c. c = 32) rel"
  unfolding sanitize_def sanitize_by_def replace_space_def
  by (rule py_upper_ascii) (auto dest: word_char_ascii)

lemma word_char_upper: "word_char c \<Longrightarrow> word_char (ascii_upper c)"
  by (auto simp: word_char_def ascii_upper_def)

lemma sanitize_by_word: "list_all word_char (sanitize_by ws label)"
  by (auto simp: sanitize_by_def list_all_iff word_char_upper)

lemma sanitize_by_cong:
  "\<forall>c \<in> set label. ws c = ws' c \<Longrightarrow> sanitize_by ws label = sanitize_by ws' label"
  by (induction label) (auto simp: sanitize_by_def)

lemma isspace_space: "py_isspace 32"
  by (simp add: py_isspace_def)

lemma group_step_empty: "sanitize up rel = [] \<Longrightarrow> group_step up (e1, rel, e2) gs = gs"
  by (simp add: group_step_def)

lemma group_triples_drop:
  "sanitize up rel = [] \<Longrightarrow>
   group_triples up (ts1 @ (e1, rel, e2) # ts2) = group_triples up (ts1 @ ts2)"
  by (simp add: group_triples_def group_step_empty)

text \<open>
  Claim C3, as stated: the sanitized identifier is the label with whitespace replaced by
  underscores, every other character outside \<open>[A-Za-z0-9_]\<close> stripped, in upper case.
  The source replaces the space character only: a tab inside a label is stripped, not
  replaced, so \<open>is<TAB>a\<close> becomes \<open>ISA\<close> where the claim's words give \<open>IS_A\<close>.
\<close>

theorem sanitize_tab_counterexample:
  "sanitize (\<lambda>c. [c]) (str ''is'' @ [9] @ str ''a'') = str ''ISA'' \<and>
   sanitize_by py_isspace (str ''is'' @ [9] @ str ''a'') = str ''IS_A''"
  by (simp add: sanitize_def sanitize_by_def py_upper_def upper_char_def replace_space_def
      word_char_def ascii_upper_def py_isspace_def)

text \<open>
  Claim C3, amended: the sanitized identifier is the label with every space character
  (U+0020) replaced by an underscore, every other character outside \<open>[A-Za-z0-9_]\<close>
  stripped (other whitespace included), in upper case, whatever the case mapping beyond
  ASCII is; it consists of characters of \<open>[A-Za-z0-9_]\<close> only; it agrees with the
  claim's reading on every label whose only whitespace is the space character; and a
  triple whose label sanitizes to the empty string is dropped by \<open>add_triples\<close>, which
  then behaves as if the triple were not in its input.
\<close>

theorem sanitize_spaces:
  "sanitize up label = sanitize_by (\<lambda>c. c = 32) label \<and>
   list_all word_char (sanitize up label) \<and>
   ((\<forall>c \<in> set label. py_isspace c \<longrightarrow> c = 32) \<longrightarrow>
      sanitize up label = sanitize_by py_isspace label) \<and>
   (sanitize up rel = [] \<longrightarrow>
      add_triples up (ts1 @ (e1, rel, e2) # ts2) c = add_triples up (ts1 @ ts2) c)"
proof (intro conjI impI)
  show "sanitize up label = sanitize_by (\<lambda>c. c = 32) label"
    by (rule sanitize_eq)
  show "list_all word_char (sanitize up label)"
    by (simp add: sanitize_eq sanitize_by_word)
  show "sanitize up label = sanitize_by py_isspace label"
    if "\<forall>c \<in> set label. py_isspace c \<longrightarrow> c = 32"
  proof -
    have "\<forall>c \<in> set label. (c = 32) = py_isspace c"
      using that isspace_space by blast
    then show ?thesis unfolding sanitize_eq by (rule sanitize_by_cong)
  qed
  show "add_triples up (ts1 @ (e1, rel, e2) # ts2) c = add_triples up (ts1 @ ts2) c"
    if "sanitize up rel = []"
    using that by (simp add: add_triples_def group_triples_drop)
qed

theorem sanitize_spaces_witness:
  "sanitize (\<lambda>c. [c]) (str ''Imposed Fine On!'') = str ''IMPOSED_FINE_ON'' \<and>
   sanitize (\<lambda>c. [c]) (str ''Imposed Fine On!'') = sanitize_by py_isspace (str ''Imposed Fine On!'') \<and>
   sanitize (\<lambda>c. [c]) (str ''...'') = [] \<and>
   add_triples (\<lambda>c. [c]) ([(str ''A'', str ''is a'', str ''B'')] @ (str ''A'', str ''...'', str ''B'') # [])
       new_connection =
     add_triples (\<lambda>c. [c]) ([(str ''A'', str ''is a'', str ''B'')] @ []) new_connection"
proof -
  let ?L = "str ''Imposed Fine On!''"
  have e: "sanitize (\<lambda>c. [c]) (str ''...'') = []"
    by (simp add: sanitize_def py_upper_def replace_space_def word_char_def)
  have s: "sanitize (\<lambda>c. [c]) ?L = str ''IMPOSED_FINE_ON''"
    by (simp add: sanitize_def py_upper_def upper_char_def replace_space_def word_char_def)
  have w: "\<forall>c \<in> set ?L. py_isspace c \<longrightarrow> c = 32"
    by (simp add: py_isspace_def)
  note T = sanitize_spaces [of "\<lambda>c. [c]" ?L "str ''...''"
      "[(str ''A'', str ''is a'', str ''B'')]" "str ''A''" "str ''B''" "[]" new_connection]
  from T have c3: "(\<forall>c \<in> set ?L. py_isspace c \<longrightarrow> c = 32) \<longrightarrow>
      sanitize (\<lambda>c. [c]) ?L = sanitize_by py_isspace ?L"
    by (rule conjunct1[OF conjunct2[OF conjunct2]])
  from T have c4: "sanitize (\<lambda>c. [c]) (str ''...'') = [] \<longrightarrow>
      add_triples (\<lambda>c. [c]) ([(str ''A'', str ''is a'', str ''B'')] @ (str ''A'', str ''...'', str ''B'') # []) new_connection =
      add_triples (\<lambda>c. [c]) ([(str ''A'', str ''is a'', str ''B'')] @ []) new_connection"
    by (rule conjunct2[OF conjunct2[OF conjunct2]])
  from c3 w have a: "sanitize (\<lambda>c. [c]) ?L = sanitize_by py_isspace ?L" by (rule mp)
  from c4 e have b: "add_triples (\<lambda>c. [c]) ([(str ''A'', str ''is a'', str ''B'')] @ (str ''A'', str ''...'', str ''B'') # []) new_connection =
      add_triples (\<lambda>c. [c]) ([(str ''A'', str ''is a'', str ''B'')] @ []) new_connection" by (rule mp)
  show ?thesis
    by (intro conjI) (rule s, rule a, rule e, rule b)
qed

section \<open>One write per relation type\<close>

lemma append_group_keys:
  "map fst (append_group k v gs) = (if k \<in> set (map fst gs) then map fst gs else map fst gs @ [k])"
  by (induction k v gs rule: append_group.induct) auto

lemma append_group_key_set: "fst ` set (append_group k v gs) = insert k (fst ` set gs)"
  using arg_cong[OF append_group_keys[of k v gs], of set] by auto

lemma append_group_lookup:
  "map_of (append_group k v gs) k' =
     (if k' = k then Some ((case map_of gs k of None \<Rightarrow> [] | Some vs \<Rightarrow> vs) @ [v])
      else map_of gs k')"
  by (induction k v gs rule: append_group.induct) auto

lemma fold_group_keys:
  "distinct (map fst gs) \<Longrightarrow>
   distinct (map fst (fold (group_step up) ts gs)) \<and>
   fst ` set (fold (group_step up) ts gs) = fst ` set gs \<union> sanitized_types up ts"
proof (induction ts arbitrary: gs)
  case Nil
  then show ?case by (simp add: sanitized_types_def)
next
  case (Cons t ts)
  obtain e1 rel e2 where t: "t = (e1, rel, e2)" by (cases t)
  have d: "distinct (map fst (group_step up t gs))"
    using Cons.prems by (simp add: t group_step_def Let_def append_group_keys)
  have s: "fst ` set (group_step up t gs) = fst ` set gs \<union> ({sanitize up rel} - {[]})"
    by (auto simp: t group_step_def Let_def append_group_key_set)
  have u: "sanitized_types up (t # ts) = ({sanitize up rel} - {[]}) \<union> sanitized_types up ts"
    unfolding t sanitized_types_def by (simp only: list.set image_insert prod.case) blast
  from Cons.IH[OF d] show ?case by (simp add: s u Un_assoc)
qed

lemma fold_group_lookup:
  "k \<noteq> [] \<Longrightarrow>
   map_of (fold (group_step up) ts gs) k =
     (if pairs_of up k ts = [] then map_of gs k
      else Some ((case map_of gs k of None \<Rightarrow> [] | Some vs \<Rightarrow> vs) @ pairs_of up k ts))"
proof (induction ts arbitrary: gs)
  case Nil
  then show ?case by (simp add: pairs_of_def)
next
  case (Cons t ts)
  obtain e1 rel e2 where t: "t = (e1, rel, e2)" by (cases t)
  show ?case
  proof (cases "sanitize up rel = k")
    case True
    then have p: "pairs_of up k (t # ts) = (e1, e2) # pairs_of up k ts"
      by (simp add: pairs_of_def t)
    have g: "map_of (group_step up t gs) k =
        Some ((case map_of gs k of None \<Rightarrow> [] | Some vs \<Rightarrow> vs) @ [(e1, e2)])"
      using True Cons.prems by (simp add: t group_step_def Let_def append_group_lookup)
    show ?thesis
      by (simp add: Cons.IH[OF Cons.prems] g p)
  next
    case False
    then have p: "pairs_of up k (t # ts) = pairs_of up k ts"
      by (simp add: pairs_of_def t)
    have g: "map_of (group_step up t gs) k = map_of gs k"
      using False by (simp add: t group_step_def Let_def append_group_lookup)
    show ?thesis
      by (simp add: Cons.IH[OF Cons.prems] g p)
  qed
qed

lemma issued_fold_write:
  "issued (fold (\<lambda>(rel_type, pairs). execute_write (MergePairs rel_type pairs)) gs c) =
   issued c @ map (\<lambda>(rel_type, pairs). MergePairs rel_type pairs) gs"
  by (induction gs arbitrary: c) (auto simp: execute_write_def)

lemma sanitize_founded:
  "sanitize up (str ''founded'') = str ''FOUNDED''" "sanitize up (str ''Founded'') = str ''FOUNDED''"
  by (simp_all add: sanitize_def py_upper_def upper_char_def replace_space_def word_char_def)

lemma example_groups:
  "group_triples up example_triples =
     [(str ''FOUNDED'', [(str ''A'', str ''B''), (str ''A'', str ''B''), (str ''C'', str ''D'')])]"
  unfolding example_triples_def group_triples_def
  by (simp add: group_step_def Let_def sanitize_founded[simplified])

text \<open>
  Claim C4, as stated, ends: for the triples \<open>(A, founded, B)\<close>, \<open>(A, Founded, B)\<close>,
  \<open>(C, founded, D)\<close> exactly two relation groups are issued as separate writes. All
  three labels sanitize to \<open>FOUNDED\<close>: one write is issued, with the three pairs.
\<close>

theorem add_triples_example_one_write:
  "issued (add_triples (\<lambda>c. [c]) example_triples new_connection) =
     [MergePairs (str ''FOUNDED'') [(str ''A'', str ''B''), (str ''A'', str ''B''), (str ''C'', str ''D'')]]
   \<and> length (filter is_write (issued (add_triples (\<lambda>c. [c]) example_triples new_connection))) \<noteq> 2"
  by (simp add: add_triples_def example_groups execute_write_def is_write_def new_connection_def)

text \<open>
  Claim C4, amended: \<open>add_triples\<close> issues exactly one write per distinct non-empty
  sanitized relation type of its input, in the order in which the types first occur, each
  with all the pairs of its type in input order, and nothing else; for the three triples
  of the example that is exactly one write, of type \<open>FOUNDED\<close>.
\<close>

theorem add_triples_one_write_per_type:
  "issued (add_triples up ts c) =
     issued c @ map (\<lambda>(rel_type, pairs). MergePairs rel_type pairs) (group_triples up ts)
   \<and> distinct (map fst (group_triples up ts))
   \<and> set (map fst (group_triples up ts)) = sanitized_types up ts
   \<and> length (group_triples up ts) = card (sanitized_types up ts)
   \<and> (\<forall>k \<in> sanitized_types up ts. map_of (group_triples up ts) k = Some (pairs_of up k ts))
   \<and> group_triples up example_triples =
       [(str ''FOUNDED'', [(str ''A'', str ''B''), (str ''A'', str ''B''), (str ''C'', str ''D'')])]"
proof -
  have k: "distinct (map fst (group_triples up ts)) \<and>
      set (map fst (group_triples up ts)) = sanitized_types up ts"
    using fold_group_keys[of "[]" up ts] by (simp add: group_triples_def)
  then have n: "card (sanitized_types up ts) = length (map fst (group_triples up ts))"
    using distinct_card[of "map fst (group_triples up ts)"] by simp
  have p: "map_of (group_triples up ts) k = Some (pairs_of up k ts)"
    if "k \<in> sanitized_types up ts" for k
  proof -
    from that have ne: "k \<noteq> []" by (simp add: sanitized_types_def)
    from that obtain e1 rel e2 where "(e1, rel, e2) \<in> set ts" "sanitize up rel = k"
      by (auto simp: sanitized_types_def)
    then have "(e1, e2) \<in> set (pairs_of up k ts)"
      by (force simp: pairs_of_def)
    then have "pairs_of up k ts \<noteq> []" by auto
    with fold_group_lookup[OF ne, of up ts "[]"] show ?thesis
      by (simp add: group_triples_def)
  qed
  from k n p show ?thesis
    by (simp add: add_triples_def issued_fold_write example_groups)
qed

theorem add_triples_one_write_per_type_witness:
  "str ''FOUNDED'' \<in> sanitized_types (\<lambda>c. [c]) example_triples \<and>
   map_of (group_triples (\<lambda>c. [c]) example_triples) (str ''FOUNDED'') =
     Some (pairs_of (\<lambda>c. [c]) (str ''FOUNDED'') example_triples) \<and>
   length (group_triples (\<lambda>c. [c]) example_triples) = 1"
proof -
  let ?up = "\<lambda>c::codepoint. [c]"
  note T = add_triples_one_write_per_type[of ?up example_triples new_connection]
  from T have s: "set (map fst (group_triples ?up example_triples)) = sanitized_types ?up example_triples"
    by (rule conjunct1[OF conjunct2[OF conjunct2]])
  from T have l: "\<forall>k \<in> sanitized_types ?up example_triples.
      map_of (group_triples ?up example_triples) k = Some (pairs_of ?up k example_triples)"
    by (rule conjunct1[OF conjunct2[OF conjunct2[OF conjunct2[OF conjunct2]]]])
  have "str ''FOUNDED'' \<in> set (map fst (group_triples ?up example_triples))"
    unfolding example_groups by simp
  then have m: "str ''FOUNDED'' \<in> sanitized_types ?up example_triples"
    unfolding s .
  from l m have a: "map_of (group_triples ?up example_triples) (str ''FOUNDED'') =
     Some (pairs_of ?up (str ''FOUNDED'') example_triples)" by (rule bspec)
  have b: "length (group_triples ?up example_triples) = 1"
    unfolding example_groups by simp
  show ?thesis by (intro conjI) (rule m, rule a, rule b)
qed

section \<open>Idempotent upsert\<close>

lemma fresh_id_gt: "n \<in> set (g_nodes g) \<Longrightarrow> n_id n < fresh_id g"
proof -
  assume "n \<in> set (g_nodes g)"
  then have "n_id n \<le> Max (insert 0 (n_id ` set (g_nodes g)))"
    by (intro Max_ge) auto
  then show ?thesis by (simp add: fresh_id_def)
qed

lemma entity_names_count: "count_list (concat (map named_entity ns)) x = length (filter (is_entity x) ns)"
  by (induction ns) (auto simp: named_entity_def is_entity_def split: option.splits)

lemma entity_count_names: "entity_count g x = count_list (entity_names g) x"
  by (simp add: entity_count_def entity_names_def entity_names_count)

lemma distinct_count_le: "distinct xs \<Longrightarrow> count_list xs x \<le> 1"
  by (induction xs) (auto simp: count_list_0_iff)

lemma store_ok_count: "store_ok g \<Longrightarrow> entity_count g x \<le> 1"
  using distinct_count_le[of "entity_names g" x] by (simp add: store_ok_def entity_count_names)

lemma entity_names_append:
  "entity_names (g\<lparr>g_nodes := g_nodes g @ [\<lparr>n_id = i, n_labels = [Entity], n_name = Some x\<rparr>]\<rparr>) = entity_names g @ [x]"
  by (simp add: entity_names_def named_entity_def)

lemma merge_node_new:
  assumes "entity_count g x = 0"
  shows "merge_node x g = ([fresh_id g], g\<lparr>g_nodes := g_nodes g @ [\<lparr>n_id = fresh_id g, n_labels = [Entity], n_name = Some x\<rparr>]\<rparr>)"
  using assms by (simp add: merge_node_def entity_count_def Let_def)

lemma merge_node_old:
  assumes "filter (is_entity x) (g_nodes g) = [n]"
  shows "merge_node x g = ([n_id n], g)"
  using assms by (simp add: merge_node_def)

lemma length_1_ex: "length xs = Suc 0 \<Longrightarrow> \<exists>x. xs = [x]"
  by (cases xs) auto

lemma merge_node_ok:
  assumes "store_ok g" and "merge_node x g = (as, g1)"
  shows "store_ok g1 \<and> g_rels g1 = g_rels g \<and> (\<exists>n. filter (is_entity x) (g_nodes g1) = [n] \<and> as = [n_id n])
         \<and> (\<forall>y. y \<noteq> x \<longrightarrow> filter (is_entity y) (g_nodes g1) = filter (is_entity y) (g_nodes g))
         \<and> (entity_count g x = 1 \<longrightarrow> g1 = g)"
proof (cases "entity_count g x = 0")
  case True
  let ?n = "\<lparr>n_id = fresh_id g, n_labels = [Entity], n_name = Some x\<rparr>"
  from True assms(2) have g1: "g1 = g\<lparr>g_nodes := g_nodes g @ [?n]\<rparr>" and as: "as = [fresh_id g]"
    by (simp_all add: merge_node_new)
  have f0: "filter (is_entity x) (g_nodes g) = []"
    using True by (simp add: entity_count_def)
  have "x \<notin> set (entity_names g)"
    using True by (simp add: entity_count_names count_list_0_iff)
  moreover have "fresh_id g \<notin> n_id ` set (g_nodes g)"
    using fresh_id_gt[of _ g] by fastforce
  ultimately have "store_ok g1"
    using assms(1) unfolding g1 store_ok_def by (simp add: entity_names_append)
  moreover have "filter (is_entity x) (g_nodes g1) = [?n]"
    by (simp add: g1 f0 is_entity_def)
  moreover have "\<forall>y. y \<noteq> x \<longrightarrow> filter (is_entity y) (g_nodes g1) = filter (is_entity y) (g_nodes g)"
    by (simp add: g1 is_entity_def)
  ultimately show ?thesis using as True by (simp add: g1)
next
  case False
  with store_ok_count[OF assms(1), of x] have "entity_count g x = 1" by simp
  then obtain n where n: "filter (is_entity x) (g_nodes g) = [n]"
    using length_1_ex by (auto simp: entity_count_def)
  with assms(2) have "g1 = g" "as = [n_id n]" by (simp_all add: merge_node_old)
  with n assms(1) show ?thesis by simp
qed


lemma rel_eq: "(r_start r = a \<and> r_type r = t \<and> r_end r = b) = (r = the_rel a t b)"
  by (cases r) (auto simp: the_rel_def)

lemma merge_rel_alt:
  "merge_rel t (a, b) g = (if the_rel a t b \<in> set (g_rels g) then g else g\<lparr>g_rels := g_rels g @ [the_rel a t b]\<rparr>)"
  by (auto simp: merge_rel_def rel_eq the_rel_def[symmetric])

lemma merge_rel_ok:
  assumes "store_ok g"
  shows "store_ok (merge_rel t (a, b) g) \<and> g_nodes (merge_rel t (a, b) g) = g_nodes g
       \<and> filter (\<lambda>r. r = the_rel a t b) (g_rels (merge_rel t (a, b) g)) = [the_rel a t b]
       \<and> merge_rel t (a, b) (merge_rel t (a, b) g) = merge_rel t (a, b) g"
proof -
  have d: "distinct (g_rels g)" using assms by (simp add: store_ok_def)
  have f: "distinct xs \<Longrightarrow> filter (\<lambda>r. r = z) xs = (if z \<in> set xs then [z] else [])" for xs and z :: rel
    by (induction xs) auto
  show ?thesis
    using assms d by (auto simp: merge_rel_alt store_ok_def entity_names_def f)
qed


lemma bound_node:
  assumes "filter (is_entity x) ns = [n]"
  shows "list_ex (\<lambda>m. is_entity x m \<and> n_id m = i) ns \<longleftrightarrow> i = n_id n"
proof -
  have "set (filter (is_entity x) ns) = {n}" using assms by simp
  then have "\<And>m. (m \<in> set ns \<and> is_entity x m) = (m = n)" by auto
  then show ?thesis unfolding list_ex_iff by metis
qed

lemma merge_pair_ok:
  assumes "store_ok g"
  shows "store_ok (merge_pair t (x, y) g) \<and> entity_count (merge_pair t (x, y) g) x = 1
       \<and> entity_count (merge_pair t (x, y) g) y = 1
       \<and> edge_count (merge_pair t (x, y) g) x t y = 1
       \<and> merge_pair t (x, y) (merge_pair t (x, y) g) = merge_pair t (x, y) g"
proof -
  define g3 where "g3 = merge_pair t (x, y) g"
  obtain as g1 where m1: "merge_node x g = (as, g1)" by (cases "merge_node x g")
  obtain bs g2 where m2: "merge_node y g1 = (bs, g2)" by (cases "merge_node y g1")
  from merge_node_ok[OF assms(1) m1] obtain nx where
    ok1: "store_ok g1" and fx1: "filter (is_entity x) (g_nodes g1) = [nx]" and as: "as = [n_id nx]"
    by blast
  from merge_node_ok[OF ok1 m2] obtain ny where
    ok2: "store_ok g2" and fy: "filter (is_entity y) (g_nodes g2) = [ny]" and bs: "bs = [n_id ny]"
    and other: "\<forall>z. z \<noteq> y \<longrightarrow> filter (is_entity z) (g_nodes g2) = filter (is_entity z) (g_nodes g1)"
    and same: "entity_count g1 y = 1 \<longrightarrow> g2 = g1"
    by blast
  have fx: "filter (is_entity x) (g_nodes g2) = [nx]"
  proof (cases "x = y")
    case True
    then have "entity_count g1 y = 1" using fx1 by (simp add: entity_count_def)
    with same fx1 show ?thesis by simp
  next
    case False
    with other fx1 show ?thesis by simp
  qed
  let ?a = "n_id nx" and ?b = "n_id ny"
  have g3: "g3 = merge_rel t (?a, ?b) g2"
    by (simp add: g3_def merge_pair_def m1 m2 as bs)
  note r = merge_rel_ok[OF ok2, of t ?a ?b]
  have nodes3: "g_nodes g3 = g_nodes g2" using r by (simp add: g3)
  have ok3: "store_ok g3" using r by (simp add: g3)
  have cx: "entity_count g3 x = 1" and cy: "entity_count g3 y = 1"
    by (simp_all add: entity_count_def nodes3 fx fy)
  have "edge_count g3 x t y = length (filter (\<lambda>r. r = the_rel ?a t ?b) (g_rels g3))"
    unfolding edge_count_def nodes3 bound_node[OF fx] bound_node[OF fy]
    by (rule arg_cong[where f=length], rule filter_cong) (auto simp: rel_eq[symmetric])
  also have "\<dots> = 1" using r by (simp add: g3)
  finally have ec: "edge_count g3 x t y = 1" .
  have "merge_node x g3 = ([?a], g3)" "merge_node y g3 = ([?b], g3)"
    by (simp_all add: merge_node_old nodes3 fx fy)
  then have "merge_pair t (x, y) g3 = merge_rel t (?a, ?b) g3"
    by (simp add: merge_pair_def)
  also have "\<dots> = g3" using r by (simp add: g3)
  finally show ?thesis using ok3 cx cy ec unfolding g3_def by simp
qed

lemma store_ok_empty: "store_ok empty_graph"
  by (simp add: store_ok_def empty_graph_def entity_names_def)

lemma fold_merge_pair_ok: "store_ok g \<Longrightarrow> store_ok (fold (merge_pair t) pairs g)"
proof (induction pairs arbitrary: g)
  case Nil
  then show ?case by simp
next
  case (Cons p pairs)
  obtain x y where "p = (x, y)" by (cases p)
  with Cons show ?case using merge_pair_ok[of g t x y] by simp
qed

lemma execute_write_ok: "store_ok (db c) \<Longrightarrow> store_ok (db (execute_write q c))"
  by (cases q) (simp_all add: execute_write_def run_write_def fold_merge_pair_ok)

lemma add_triples_ok: "store_ok (db c) \<Longrightarrow> store_ok (db (add_triples up ts c))"
proof -
  have "store_ok (db c) \<Longrightarrow> store_ok (db (fold (\<lambda>(rel_type, pairs). execute_write (MergePairs rel_type pairs)) gs c))" for gs
    by (induction gs arbitrary: c) (auto simp: execute_write_ok)
  then show "store_ok (db c) \<Longrightarrow> store_ok (db (add_triples up ts c))"
    by (simp add: add_triples_def)
qed

lemma add_triples_single:
  "sanitize up rel \<noteq> [] \<Longrightarrow>
   add_triples up [(e1, rel, e2)] c = execute_write (MergePairs (sanitize up rel) [(e1, e2)]) c"
  by (simp add: add_triples_def group_triples_def group_step_def)

lemma add_triples_noise: "sanitize up rel = [] \<Longrightarrow> add_triples up [(e1, rel, e2)] c = c"
  by (simp add: add_triples_def group_triples_def group_step_def)

lemma sanitize_dots: "sanitize up (str ''...'') = []"
  by (simp add: sanitize_def py_upper_def replace_space_def word_char_def)

lemma sanitize_founded_nonempty: "sanitize up (str ''founded'') \<noteq> []"
  by (simp add: sanitize_def py_upper_def upper_char_def replace_space_def word_char_def)

text \<open>
  Claim C2, as stated, speaks of every triple. A triple whose relation label sanitizes to
  the empty string is dropped: after two calls on the empty store there is no Entity
  node named after its subject.
\<close>

theorem add_triples_noise_leaves_no_entity:
  "entity_count
     (db (add_triples (\<lambda>c. [c]) [(str ''A'', str ''...'', str ''B'')]
            (add_triples (\<lambda>c. [c]) [(str ''A'', str ''...'', str ''B'')] new_connection)))
     (str ''A'') = 0"
proof -
  have n: "add_triples (\<lambda>c. [c]) [(str ''A'', str ''...'', str ''B'')] c = c" for c
    by (rule add_triples_noise[OF sanitize_dots])
  show ?thesis
    unfolding n by (simp add: new_connection_def empty_graph_def entity_count_def)
qed

text \<open>
  Claim C2, amended: on a store that satisfies the uniqueness invariants of the data
  model (the empty store does, and \<open>add_triples\<close> keeps them), for every triple \<open>T\<close>
  whose relation label sanitizes to a non-empty identifier, calling \<open>add_triples [T]\<close>
  twice leaves exactly one Entity node for the subject name, exactly one for the object
  name, and exactly one relationship of the sanitized type from the subject's node to
  the object's; the second call leaves the store as the first one left it. For a triple
  whose label sanitizes to the empty string, \<open>add_triples [T]\<close> changes nothing. Every
  call of \<open>add_triples\<close> keeps the invariants.
\<close>

theorem add_triples_twice:
  assumes "store_ok (db c)"
  shows "(sanitize up rel \<noteq> [] \<longrightarrow>
           (let once = add_triples up [(e1, rel, e2)] c;
                twice = add_triples up [(e1, rel, e2)] once
            in entity_count (db twice) e1 = 1 \<and> entity_count (db twice) e2 = 1 \<and>
               edge_count (db twice) e1 (sanitize up rel) e2 = 1 \<and>
               db twice = db once \<and> store_ok (db twice)))
       \<and> (sanitize up rel = [] \<longrightarrow> add_triples up [(e1, rel, e2)] c = c)
       \<and> store_ok (db (add_triples up ts c))"
proof (intro conjI impI)
  assume ne: "sanitize up rel \<noteq> []"
  let ?t = "sanitize up rel"
  let ?g1 = "merge_pair ?t (e1, e2) (db c)"
  note p = merge_pair_ok[OF assms, of ?t e1 e2]
  have once: "db (add_triples up [(e1, rel, e2)] c) = ?g1"
    by (simp add: add_triples_single[OF ne] execute_write_def run_write_def)
  have twice: "db (add_triples up [(e1, rel, e2)] (add_triples up [(e1, rel, e2)] c)) =
      merge_pair ?t (e1, e2) ?g1"
    by (simp add: add_triples_single[OF ne] execute_write_def run_write_def)
  show "let once = add_triples up [(e1, rel, e2)] c;
            twice = add_triples up [(e1, rel, e2)] once
        in entity_count (db twice) e1 = 1 \<and> entity_count (db twice) e2 = 1 \<and>
           edge_count (db twice) e1 (sanitize up rel) e2 = 1 \<and>
           db twice = db once \<and> store_ok (db twice)"
    unfolding Let_def twice once using p by simp
next
  assume "sanitize up rel = []"
  then show "add_triples up [(e1, rel, e2)] c = c" by (rule add_triples_noise)
next
  show "store_ok (db (add_triples up ts c))" using assms by (rule add_triples_ok)
qed

theorem add_triples_twice_witness:
  "store_ok (db new_connection) \<and>
   sanitize (\<lambda>c. [c]) (str ''founded'') \<noteq> [] \<and>
   entity_count (db (add_triples (\<lambda>c. [c]) [(str ''A'', str ''founded'', str ''B'')]
       (add_triples (\<lambda>c. [c]) [(str ''A'', str ''founded'', str ''B'')] new_connection))) (str ''A'') = 1 \<and>
   edge_count (db (add_triples (\<lambda>c. [c]) [(str ''A'', str ''founded'', str ''B'')]
       (add_triples (\<lambda>c. [c]) [(str ''A'', str ''founded'', str ''B'')] new_connection)))
     (str ''A'') (sanitize (\<lambda>c. [c]) (str ''founded'')) (str ''B'') = 1 \<and>
   add_triples (\<lambda>c. [c]) [(str ''A'', str ''...'', str ''B'')] new_connection = new_connection"
proof -
  let ?up = "\<lambda>c::codepoint. [c]"
  have ok: "store_ok (db new_connection)"
    by (simp add: new_connection_def store_ok_empty)
  note T = add_triples_twice[OF ok, of ?up "str ''founded''" "str ''A''" "str ''B''" "[]"]
  note N = add_triples_twice[OF ok, of ?up "str ''...''" "str ''A''" "str ''B''" "[]"]
  have ne: "sanitize ?up (str ''founded'') \<noteq> []" by (rule sanitize_founded_nonempty)
  from T have "sanitize ?up (str ''founded'') \<noteq> [] \<longrightarrow>
           (let once = add_triples ?up [(str ''A'', str ''founded'', str ''B'')] new_connection;
                twice = add_triples ?up [(str ''A'', str ''founded'', str ''B'')] once
            in entity_count (db twice) (str ''A'') = 1 \<and> entity_count (db twice) (str ''B'') = 1 \<and>
               edge_count (db twice) (str ''A'') (sanitize ?up (str ''founded'')) (str ''B'') = 1 \<and>
               db twice = db once \<and> store_ok (db twice))"
    by (rule conjunct1)
  from this ne have l: "let once = add_triples ?up [(str ''A'', str ''founded'', str ''B'')] new_connection;
                twice = add_triples ?up [(str ''A'', str ''founded'', str ''B'')] once
            in entity_count (db twice) (str ''A'') = 1 \<and> entity_count (db twice) (str ''B'') = 1 \<and>
               edge_count (db twice) (str ''A'') (sanitize ?up (str ''founded'')) (str ''B'') = 1 \<and>
               db twice = db once \<and> store_ok (db twice)"
    by (rule mp)
  from N have "sanitize ?up (str ''...'') = [] \<longrightarrow>
      add_triples ?up [(str ''A'', str ''...'', str ''B'')] new_connection = new_connection"
    by (rule conjunct1[OF conjunct2])
  from this sanitize_dots have n: "add_triples ?up [(str ''A'', str ''...'', str ''B'')] new_connection = new_connection"
    by (rule mp)
  from l have a: "entity_count (db (add_triples ?up [(str ''A'', str ''founded'', str ''B'')]
       (add_triples ?up [(str ''A'', str ''founded'', str ''B'')] new_connection))) (str ''A'') = 1"
    unfolding Let_def by (rule conjunct1)
  from l have b: "edge_count (db (add_triples ?up [(str ''A'', str ''founded'', str ''B'')]
       (add_triples ?up [(str ''A'', str ''founded'', str ''B'')] new_connection)))
     (str ''A'') (sanitize ?up (str ''founded'')) (str ''B'') = 1"
    unfolding Let_def by (rule conjunct1[OF conjunct2[OF conjunct2]])
  show ?thesis by (intro conjI) (rule ok, rule ne, rule a, rule b, rule n)
qed

section \<open>The safety guard\<close>

lemma upper_char_match: "upper_letter t \<Longrightarrow> ci_match t c \<Longrightarrow> upper_char up c = [t]"
  by (auto simp: upper_letter_def ci_match_def upper_char_def)

lemma ci_prefix_upper:
  "list_all upper_letter tok \<Longrightarrow> ci_prefix tok s \<Longrightarrow> prefix tok (py_upper up s)"
proof (induction tok s rule: ci_prefix.induct)
  case (3 t ts c cs)
  then have "upper_char up c = [t]" and "prefix ts (py_upper up cs)"
    by (auto simp: upper_char_match simp flip: py_upper_def)
  then show ?case by (simp add: py_upper_def)
qed simp_all

lemma contains_ci_upper:
  "list_all upper_letter tok \<Longrightarrow> contains_ci tok s \<Longrightarrow> sublist tok (py_upper up s)"
proof (induction s)
  case Nil
  then show ?case by (simp add: py_upper_def)
next
  case (Cons c cs)
  from Cons.prems(2) consider "ci_prefix tok (c # cs)" | "contains_ci tok cs" by auto
  then show ?case
  proof cases
    case 1
    then show ?thesis using ci_prefix_upper[OF Cons.prems(1)] by (simp add: prefix_imp_sublist)
  next
    case 2
    then have "sublist tok (py_upper up cs)" using Cons by simp
    then have "sublist tok (upper_char up c @ py_upper up cs)"
      by (simp add: sublist_append)
    then show ?thesis by (simp add: py_upper_def)
  qed
qed

lemma write_ops_upper: "op \<in> set write_ops \<Longrightarrow> list_all upper_letter op"
  by (auto simp: write_ops_def upper_letter_def)

lemma split_from_nonempty: "split_from sep acc s \<noteq> []"
  by (induction sep acc s rule: split_from.induct) auto

lemma split_from_two:
  "sep \<noteq> [] \<Longrightarrow> sublist sep s \<Longrightarrow> \<exists>a b rest. split_from sep acc s = a # b # rest"
proof (induction sep acc s rule: split_from.induct)
  case (1 sep acc)
  then show ?case by simp
next
  case (2 sep acc c cs)
  show ?case
  proof (cases "prefix sep (c # cs)")
    case True
    obtain b rest where "split_from sep [] (drop (length sep) (c # cs)) = b # rest"
      using split_from_nonempty by (meson neq_Nil_conv)
    with True 2(3) show ?thesis by simp
  next
    case False
    with 2(4) have "sublist sep cs" by (simp add: sublist_Cons_right)
    with 2 False show ?thesis by simp
  qed
qed

lemma fence_nonempty: "fence \<noteq> []" by (simp add: fence_def)

lemma extract_query_total: "\<exists>q. extract_query out = Inr q"
proof (cases "sublist fence (py_strip out)")
  case True
  from split_from_two[OF fence_nonempty True, of "[]"] obtain a b rest
    where "py_split fence (py_strip out) = a # b # rest" by (auto simp: py_split_def)
  with True show ?thesis by (simp add: extract_query_def)
next
  case False
  then show ?thesis by (simp add: extract_query_def)
qed

lemma extract_fenced_create:
  "extract_query fenced_create = Inr (str ''MATCH (n) WHERE n.name = 'create' RETURN n'')"
  by (simp add: fenced_create_def extract_query_def py_strip_def strip_where_def py_isspace_def
      fence_def sublist_Cons_right py_split_def py_strip_chars_def Let_def)

lemma create_in_literal:
  "contains_ci (str ''CREATE'') (str ''MATCH (n) WHERE n.name = 'create' RETURN n'')"
  by (simp add: ci_match_def)

lemma create_write_op: "str ''CREATE'' \<in> set write_ops"
  by (simp add: write_ops_def)

text \<open>
  Claim C1: whatever the question and whatever text the model returns, if the candidate
  query (the answer trimmed, and cut to its fenced segment when it has one) holds
  \<open>CREATE\<close>, \<open>SET\<close>, \<open>DELETE\<close> or \<open>MERGE\<close> anywhere, in any mix of cases, inside a
  quoted literal or not, \<open>generate_cypher\<close> ends in the guard's
  \<open>DisallowedWriteOperation\<close> and returns no query. The candidate always exists
  (\<open>extract_query_total\<close>).
\<close>

theorem generate_cypher_rejects_write_ops:
  assumes "model (cypher_prompt repr (fst (get_schema c)) question) = Some out"
      and "extract_query out = Inr candidate"
      and "op \<in> set write_ops"
      and "contains_ci op candidate"
  shows "fst (generate_cypher up repr model question c) = Inl DisallowedWriteOperation"
proof -
  have "sublist op (py_upper up candidate)"
    using contains_ci_upper[OF write_ops_upper[OF assms(3)] assms(4)] .
  with assms(3) have "has_write_op up candidate"
    by (auto simp: has_write_op_def list_ex_iff)
  with assms(1,2) show ?thesis
    by (cases "get_schema c") (simp add: generate_cypher_def)
qed

theorem generate_cypher_rejects_write_ops_witness:
  "extract_query fenced_create = Inr (str ''MATCH (n) WHERE n.name = 'create' RETURN n'') \<and>
   str ''CREATE'' \<in> set write_ops \<and>
   contains_ci (str ''CREATE'') (str ''MATCH (n) WHERE n.name = 'create' RETURN n'') \<and>
   fst (generate_cypher (\<lambda>c. [c]) (\<lambda>xs. concat xs) (\<lambda>prompt. Some fenced_create)
          (str ''Who created the graph?'') new_connection) = Inl DisallowedWriteOperation"
proof -
  have m: "(\<lambda>prompt. Some fenced_create)
      (cypher_prompt (\<lambda>xs. concat xs) (fst (get_schema new_connection)) (str ''Who created the graph?''))
      = Some fenced_create" by (rule refl)
  note T = generate_cypher_rejects_write_ops[of "\<lambda>prompt. Some fenced_create" "\<lambda>xs. concat xs" new_connection
      "str ''Who created the graph?''" fenced_create
      "str ''MATCH (n) WHERE n.name = 'create' RETURN n''" "str ''CREATE''" "\<lambda>c. [c]",
      OF m extract_fenced_create create_write_op create_in_literal]
  show ?thesis
    by (intro conjI) (rule extract_fenced_create, rule create_write_op, rule create_in_literal, rule T)
qed

section \<open>Extraction of the fenced query\<close>

lemma extract_fenced_name:
  "extract_query fenced_name = Inr (str ''MATCH (n:Entity) RETURN n.nam'')"
  by (simp add: fenced_name_def extract_query_def py_strip_def strip_where_def py_isspace_def
      fence_def sublist_Cons_right py_split_def py_strip_chars_def Let_def)

lemma no_write_op_in_name_query: "\<not> has_write_op up (str ''MATCH (n:Entity) RETURN n.nam'')"
  by (simp add: has_write_op_def write_ops_def py_upper_def upper_char_def sublist_Cons_right)

text \<open>
  Claim C5 holds of the intent and fails on the code: \<open>strip("cypher\n")\<close> strips the
  characters \<open>c\<close>, \<open>y\<close>, \<open>p\<close>, \<open>h\<close>, \<open>e\<close>, \<open>r\<close> and the newline from both ends of the
  fenced segment, not the language tag. For the answer
  \<open>```cypher\nMATCH (n:Entity) RETURN n.name\n```\<close> the query returned is
  \<open>MATCH (n:Entity) RETURN n.nam\<close>: the final \<open>e\<close> of the query text is lost.
\<close>

theorem generate_cypher_fence_strips_query_text:
  "fst (generate_cypher up repr (\<lambda>prompt. Some fenced_name) question c) =
     Inr (str ''MATCH (n:Entity) RETURN n.nam'')"
  by (cases "get_schema c")
     (simp add: generate_cypher_def extract_fenced_name[simplified] no_write_op_in_name_query[simplified])

section \<open>The triple input parser\<close>

lemma split_from_single:
  "length (split_from [c] acc s) = Suc (count_list s c)"
  by (induction "[c]" acc s rule: split_from.induct) auto

lemma py_split_fields: "length (py_split [c] s) = Suc (count_list s c)"
  by (simp add: py_split_def split_from_single)

lemma strip_where_ends:
  "strip_where P s = [] \<or> (\<not> P (hd (strip_where P s)) \<and> \<not> P (last (strip_where P s)))"
proof (cases "dropWhile P s")
  case Nil
  show ?thesis unfolding strip_where_def Nil by simp
next
  case (Cons x xs)
  then have x: "\<not> P x" using hd_dropWhile[of P s] by auto
  let ?b = "dropWhile P (rev xs @ [x])"
  have b: "?b \<noteq> []" "last ?b = x" using x by (simp_all add: dropWhile_append)
  then have "\<not> P (hd ?b)" using hd_dropWhile[of P "rev xs @ [x]"] by simp
  with b x show ?thesis unfolding strip_where_def Cons by (simp add: hd_rev last_rev)
qed

lemma clean_field_ends:
  "clean_field f = [] \<or> (\<not> quote_char (hd (clean_field f)) \<and> \<not> quote_char (last (clean_field f)))"
  using strip_where_ends[of "\<lambda>c. c \<in> set [39, 34]" "py_strip f"]
  by (simp add: clean_field_def py_strip_chars_def quote_char_def)

lemma parse_line_cases:
  "parse_line line = [] \<or>
   (\<exists>p0 p1 p2. py_split (str ''|'') line = [p0, p1, p2] \<and>
       parse_line line = [(clean_field p0, clean_field p1, clean_field p2)] \<and>
       unquoted (clean_field p0) \<and> unquoted (clean_field p1) \<and> unquoted (clean_field p2))"
proof (cases "\<exists>p0 p1 p2. py_split (str ''|'') line = [p0, p1, p2]")
  case True
  then obtain p0 p1 p2 where p: "py_split (str ''|'') line = [p0, p1, p2]" by blast
  show ?thesis
    using clean_field_ends[of p0] clean_field_ends[of p1] clean_field_ends[of p2]
    by (auto simp: parse_line_def p[simplified] Let_def unquoted_def)
next
  case False
  then have "parse_line line = []"
    by (auto simp: parse_line_def split: list.splits)
  then show ?thesis ..
qed

lemma parse_line_fields: "length (py_split (str ''|'') line) \<noteq> 3 \<Longrightarrow> parse_line line = []"
  by (auto simp: parse_line_def split: list.splits)

lemma isspace_pipe: "py_isspace c \<Longrightarrow> c \<noteq> 124"
  by (auto simp: py_isspace_def)

lemma blank_line: "list_all py_isspace line \<Longrightarrow> parse_line line = []"
proof -
  assume "list_all py_isspace line"
  then have "124 \<notin> set line" using isspace_pipe by (auto simp: list_all_iff)
  then have "count_list line 124 = 0" by (simp add: count_list_0_iff)
  then have "length (py_split (str ''|'') line) = 1"
    using py_split_fields[of 124 line] by simp
  then show ?thesis by (intro parse_line_fields) simp
qed

lemma parse_john_doe:
  "parse_triples john_doe_line = [(str ''John Doe'', str ''IS_A'', str ''Director'')]"
  by (simp add: john_doe_line_def parse_triples_def parse_line_def py_split_def py_strip_def
      strip_where_def py_isspace_def clean_field_def py_strip_chars_def Let_def)

text \<open>
  Claim C9, as stated, discards the blank lines and the lines that do not split into
  exactly three fields, and maps every other line to a triple. The line \<open>a||b\<close> splits
  into exactly three fields and gives no triple: its middle field is empty.
\<close>

theorem parse_empty_field_counterexample:
  "length (py_split (str ''|'') (str ''a||b'')) = 3 \<and> parse_triples (str ''a||b'') = []"
  by (simp add: parse_triples_def parse_line_def py_split_def py_strip_def strip_where_def
      py_isspace_def clean_field_def py_strip_chars_def Let_def)

text \<open>
  Claim C9, amended: the parser reads the text line by line. A line gives at most one
  triple; it gives one exactly when it splits at \<open>|\<close> into three fields (it holds two
  pipes) none of which is empty once its surrounding whitespace and then its surrounding
  quote characters are stripped, and the triple is these three stripped fields, none
  starting or ending with a quote character. Every other line (a blank one, one with
  another number of fields, one with an empty field) is discarded without error. The
  line \<open>'John Doe'|IS_A|Director\<close> parses to \<open>(John Doe, IS_A, Director)\<close>.
\<close>

theorem parse_triples_lines:
  "parse_triples john_doe_line = [(str ''John Doe'', str ''IS_A'', str ''Director'')]
   \<and> parse_triples txt = concat (map parse_line (py_split (str ''\<newline>'') (py_strip txt)))
   \<and> length (py_split (str ''|'') line) = Suc (count_list line 124)
   \<and> (length (py_split (str ''|'') line) \<noteq> 3 \<longrightarrow> parse_line line = [])
   \<and> (list_all py_isspace line \<longrightarrow> parse_line line = [])
   \<and> (\<forall>p0 p1 p2. py_split (str ''|'') line = [p0, p1, p2] \<longrightarrow>
         parse_line line =
           (if clean_field p0 \<noteq> [] \<and> clean_field p1 \<noteq> [] \<and> clean_field p2 \<noteq> []
            then [(clean_field p0, clean_field p1, clean_field p2)] else []))
   \<and> (\<forall>e1 rel e2. (e1, rel, e2) \<in> set (parse_line line) \<longrightarrow>
         parse_line line = [(e1, rel, e2)] \<and> unquoted e1 \<and> unquoted rel \<and> unquoted e2)"
proof -
  have c2: "parse_triples txt = concat (map parse_line (py_split (str ''\<newline>'') (py_strip txt)))"
    by (simp add: parse_triples_def)
  have c3: "length (py_split (str ''|'') line) = Suc (count_list line 124)"
    using py_split_fields[of 124 line] by simp
  have c4: "length (py_split (str ''|'') line) \<noteq> 3 \<longrightarrow> parse_line line = []"
    using parse_line_fields by blast
  have c5: "list_all py_isspace line \<longrightarrow> parse_line line = []"
    using blank_line by blast
  have c6: "\<forall>p0 p1 p2. py_split (str ''|'') line = [p0, p1, p2] \<longrightarrow>
         parse_line line =
           (if clean_field p0 \<noteq> [] \<and> clean_field p1 \<noteq> [] \<and> clean_field p2 \<noteq> []
            then [(clean_field p0, clean_field p1, clean_field p2)] else [])"
    by (simp add: parse_line_def Let_def)
  have c7: "\<forall>e1 rel e2. (e1, rel, e2) \<in> set (parse_line line) \<longrightarrow>
         parse_line line = [(e1, rel, e2)] \<and> unquoted e1 \<and> unquoted rel \<and> unquoted e2"
    using parse_line_cases[of line] by auto
  show ?thesis
    by (intro conjI) (rule parse_john_doe, rule c2, rule c3, rule c4, rule c5, rule c6, rule c7)
qed


theorem parse_triples_lines_witness:
  "length (py_split (str ''|'') (str ''no pipes here'')) \<noteq> 3 \<and>
   parse_line (str ''no pipes here'') = [] \<and>
   list_all py_isspace (str ''   '') \<and> parse_line (str ''   '') = [] \<and>
   (str ''John Doe'', str ''IS_A'', str ''Director'') \<in> set (parse_line john_doe_line) \<and>
   unquoted (str ''John Doe'') \<and> unquoted (str ''IS_A'') \<and> unquoted (str ''Director'')"
proof -
  have f: "length (py_split (str ''|'') (str ''no pipes here'')) \<noteq> 3"
    by (simp add: py_split_def)
  have b: "list_all py_isspace (str ''   '')"
    by (simp add: py_isspace_def)
  have j: "(str ''John Doe'', str ''IS_A'', str ''Director'') \<in> set (parse_line john_doe_line)"
    by (simp add: john_doe_line_def parse_line_def py_split_def py_strip_def
      strip_where_def py_isspace_def clean_field_def py_strip_chars_def Let_def)
  note A = parse_triples_lines[of "[]" "str ''no pipes here''"]
  note B = parse_triples_lines[of "[]" "str ''   ''"]
  note C = parse_triples_lines[of "[]" john_doe_line]
  from A have "length (py_split (str ''|'') (str ''no pipes here'')) \<noteq> 3 \<longrightarrow>
      parse_line (str ''no pipes here'') = []"
    by (rule conjunct1[OF conjunct2[OF conjunct2[OF conjunct2]]])
  from this f have a1: "parse_line (str ''no pipes here'') = []" by (rule mp)
  from B have "list_all py_isspace (str ''   '') \<longrightarrow> parse_line (str ''   '') = []"
    by (rule conjunct1[OF conjunct2[OF conjunct2[OF conjunct2[OF conjunct2]]]])
  from this b have b1: "parse_line (str ''   '') = []" by (rule mp)
  from C have "\<forall>e1 rel e2. (e1, rel, e2) \<in> set (parse_line john_doe_line) \<longrightarrow>
         parse_line john_doe_line = [(e1, rel, e2)] \<and> unquoted e1 \<and> unquoted rel \<and> unquoted e2"
    by (rule conjunct2[OF conjunct2[OF conjunct2[OF conjunct2[OF conjunct2[OF conjunct2]]]]])
  with j have u: "unquoted (str ''John Doe'') \<and> unquoted (str ''IS_A'') \<and> unquoted (str ''Director'')"
    by blast
  show ?thesis
    by (intro conjI) (rule f, rule a1, rule b, rule b1, rule j, rule conjunct1[OF u],
        rule conjunct1[OF conjunct2[OF u]], rule conjunct2[OF conjunct2[OF u]])
qed

section \<open>Bounded retrieval\<close>

lemma match_neighbours_none: "match_neighbours lo [] g = []"
  by (simp add: match_neighbours_def)

lemma search_graph_rows:
  "model (entity_prompt q) = Some s \<Longrightarrow>
   fst (search_graph lo model q c) = Inr (take 25 (match_neighbours lo (clean_entities s) (db c)))"
  by (simp add: search_graph_def Let_def execute_read_def run_read_def match_neighbours_none)

lemma search_graph_nlp_rows:
  "fst (search_graph_nlp lo nlp q c) = take 25 (match_neighbours lo (nlp_entities (nlp q)) (db c))"
  by (simp add: search_graph_nlp_def Let_def execute_read_def run_read_def match_neighbours_none)

text \<open>
  Claim C7: for every question, every model (or tagger) and every store, \<open>search_graph\<close>
  returns at most 25 rows: the first 25 matches of its query when there are more. When
  the model call succeeds it does return rows (it does not fail).
\<close>

theorem search_graph_at_most_25:
  "(\<forall>s. model (entity_prompt q) = Some s \<longrightarrow>
      (\<exists>rows. fst (search_graph lo model q c) = Inr rows \<and> length rows \<le> 25 \<and>
              rows = take 25 (match_neighbours lo (clean_entities s) (db c))))
   \<and> (model (entity_prompt q) = None \<longrightarrow> fst (search_graph lo model q c) = Inl GenerationError)
   \<and> fst (search_graph_nlp lo nlp q c) = take 25 (match_neighbours lo (nlp_entities (nlp q)) (db c))
   \<and> length (fst (search_graph_nlp lo nlp q c)) \<le> 25"
proof -
  have a: "\<forall>s. model (entity_prompt q) = Some s \<longrightarrow>
      (\<exists>rows. fst (search_graph lo model q c) = Inr rows \<and> length rows \<le> 25 \<and>
              rows = take 25 (match_neighbours lo (clean_entities s) (db c)))"
    by (simp add: search_graph_rows)
  have b: "model (entity_prompt q) = None \<longrightarrow> fst (search_graph lo model q c) = Inl GenerationError"
    by (simp add: search_graph_def)
  have d: "length (fst (search_graph_nlp lo nlp q c)) \<le> 25"
    by (simp add: search_graph_nlp_rows)
  show ?thesis
    by (intro conjI) (rule a, rule b, rule search_graph_nlp_rows, rule d)
qed

lemma crowded_entities: "clean_entities crowded_answer = [str ''a'', str ''a'', str ''a'']"
  by (simp add: crowded_answer_def clean_entities_def py_split_def py_strip_def strip_where_def
      py_isspace_def)

lemma match_neighbours_cons:
  "match_neighbours lo (e # es) g = match_neighbours lo [e] g @ match_neighbours lo es g"
  by (simp add: match_neighbours_def)

lemma match_neighbours_sum:
  "length (match_neighbours lo es g) = sum_list (map (\<lambda>e. length (match_neighbours lo [e] g)) es)"
proof (induction es)
  case Nil
  then show ?case by (simp add: match_neighbours_none)
next
  case (Cons e es)
  then show ?case using match_neighbours_cons[of lo e es g] by simp
qed

lemma nine_matches:
  "length (match_neighbours (\<lambda>c. [c]) [str ''a''] fan_graph) = 9"
  by (simp add: match_neighbours_def fan_graph_def name_contains_def cy_lower_def expand_def
      sublist_Cons_right Entity_def)

lemma crowded_matches:
  "length (match_neighbours (\<lambda>c. [c]) [str ''a'', str ''a'', str ''a''] fan_graph) = 27"
  unfolding match_neighbours_sum[of _ "[str ''a'', str ''a'', str ''a'']"]
  by (simp add: nine_matches[simplified])

theorem search_graph_at_most_25_witness:
  "(\<lambda>prompt. Some crowded_answer) (entity_prompt (str ''Who is A?'')) = Some crowded_answer \<and>
   length (match_neighbours (\<lambda>c. [c]) (clean_entities crowded_answer) fan_graph) = 27 \<and>
   (\<exists>rows. fst (search_graph (\<lambda>c. [c]) (\<lambda>prompt. Some crowded_answer) (str ''Who is A?'')
                  \<lparr>db = fan_graph, issued = []\<rparr>) = Inr rows \<and> length rows = 25)"
proof -
  let ?model = "\<lambda>prompt::pystr. Some crowded_answer"
  let ?c = "\<lparr>db = fan_graph, issued = []\<rparr>"
  have m: "?model (entity_prompt (str ''Who is A?'')) = Some crowded_answer" by (rule refl)
  have n: "length (match_neighbours (\<lambda>c. [c]) (clean_entities crowded_answer) fan_graph) = 27"
    unfolding crowded_entities by (rule crowded_matches)
  note T = search_graph_at_most_25[of ?model "str ''Who is A?''" "\<lambda>c. [c]" ?c]
  from T have "\<forall>s. ?model (entity_prompt (str ''Who is A?'')) = Some s \<longrightarrow>
      (\<exists>rows. fst (search_graph (\<lambda>c. [c]) ?model (str ''Who is A?'') ?c) = Inr rows \<and> length rows \<le> 25 \<and>
              rows = take 25 (match_neighbours (\<lambda>c. [c]) (clean_entities s) (db ?c)))"
    by (rule conjunct1)
  with m obtain rows where r: "fst (search_graph (\<lambda>c. [c]) ?model (str ''Who is A?'') ?c) = Inr rows"
      and t: "rows = take 25 (match_neighbours (\<lambda>c. [c]) (clean_entities crowded_answer) (db ?c))"
    by blast
  have "db ?c = fan_graph" by simp
  with t n have "length rows = 25" by simp
  with r have e: "\<exists>rows. fst (search_graph (\<lambda>c. [c]) ?model (str ''Who is A?'') ?c) = Inr rows \<and> length rows = 25"
    by blast
  show ?thesis by (intro conjI) (rule m, rule n, rule e)
qed

section \<open>Empty-entity short circuit\<close>

lemma clean_blank_answer: "clean_entities blank_answer = []"
  by (simp add: blank_answer_def clean_entities_def py_split_def py_strip_def strip_where_def
      py_isspace_def)

lemma nlp_entities_empty_doc: "nlp_entities empty_doc = []"
  by (simp add: nlp_entities_def empty_doc_def)

text \<open>
  Claim C8: when the entity-extraction step yields no candidate name, \<open>search_graph\<close>
  returns the empty sequence as a normal result and leaves the connection as it was: no
  statement is issued. (With candidates, exactly one read is issued.)
\<close>

theorem search_graph_no_entities:
  "(model (entity_prompt q) = Some s \<and> clean_entities s = [] \<longrightarrow>
      search_graph lo model q c = (Inr [], c))
   \<and> (nlp_entities (nlp q) = [] \<longrightarrow> search_graph_nlp lo nlp q c = ([], c))
   \<and> (model (entity_prompt q) = Some s \<and> clean_entities s \<noteq> [] \<longrightarrow>
        issued (snd (search_graph lo model q c)) = issued c @ [MatchNeighbours (clean_entities s)])
   \<and> (nlp_entities (nlp q) \<noteq> [] \<longrightarrow>
        issued (snd (search_graph_nlp lo nlp q c)) = issued c @ [MatchNeighbours (nlp_entities (nlp q))])"
proof -
  have a: "model (entity_prompt q) = Some s \<and> clean_entities s = [] \<longrightarrow>
      search_graph lo model q c = (Inr [], c)"
    by (simp add: search_graph_def)
  have b: "nlp_entities (nlp q) = [] \<longrightarrow> search_graph_nlp lo nlp q c = ([], c)"
    by (simp add: search_graph_nlp_def)
  have d: "model (entity_prompt q) = Some s \<and> clean_entities s \<noteq> [] \<longrightarrow>
        issued (snd (search_graph lo model q c)) = issued c @ [MatchNeighbours (clean_entities s)]"
    by (simp add: search_graph_def execute_read_def Let_def)
  have e: "nlp_entities (nlp q) \<noteq> [] \<longrightarrow>
        issued (snd (search_graph_nlp lo nlp q c)) = issued c @ [MatchNeighbours (nlp_entities (nlp q))]"
    by (simp add: search_graph_nlp_def execute_read_def Let_def)
  show ?thesis by (intro conjI) (rule a, rule b, rule d, rule e)
qed

theorem search_graph_no_entities_witness:
  "(\<lambda>prompt. Some blank_answer) (entity_prompt (str ''What is it?'')) = Some blank_answer \<and>
   clean_entities blank_answer = [] \<and>
   search_graph (\<lambda>c. [c]) (\<lambda>prompt. Some blank_answer) (str ''What is it?'')
       \<lparr>db = fan_graph, issued = []\<rparr> = (Inr [], \<lparr>db = fan_graph, issued = []\<rparr>) \<and>
   nlp_entities ((\<lambda>text. empty_doc) (str ''What is it?'')) = [] \<and>
   search_graph_nlp (\<lambda>c. [c]) (\<lambda>text. empty_doc) (str ''What is it?'')
       \<lparr>db = fan_graph, issued = []\<rparr> = ([], \<lparr>db = fan_graph, issued = []\<rparr>) \<and>
   issued (snd (search_graph (\<lambda>c. [c]) (\<lambda>prompt. Some crowded_answer) (str ''Who is A?'')
       \<lparr>db = fan_graph, issued = []\<rparr>)) = [] @ [MatchNeighbours (clean_entities crowded_answer)]"
proof -
  let ?c = "\<lparr>db = fan_graph, issued = []\<rparr>"
  let ?q = "str ''What is it?''"
  have m: "(\<lambda>prompt::pystr. Some blank_answer) (entity_prompt ?q) = Some blank_answer" by (rule refl)
  have n: "nlp_entities ((\<lambda>text::pystr. empty_doc) ?q) = []" by (simp add: nlp_entities_empty_doc)
  note T = search_graph_no_entities[of "\<lambda>prompt. Some blank_answer" ?q blank_answer "\<lambda>c. [c]" ?c "\<lambda>text. empty_doc"]
  from T have "(\<lambda>prompt::pystr. Some blank_answer) (entity_prompt ?q) = Some blank_answer \<and> clean_entities blank_answer = [] \<longrightarrow>
      search_graph (\<lambda>c. [c]) (\<lambda>prompt. Some blank_answer) ?q ?c = (Inr [], ?c)"
    by (rule conjunct1)
  with m clean_blank_answer have a: "search_graph (\<lambda>c. [c]) (\<lambda>prompt. Some blank_answer) ?q ?c = (Inr [], ?c)"
    by blast
  from T have "nlp_entities ((\<lambda>text::pystr. empty_doc) ?q) = [] \<longrightarrow>
      search_graph_nlp (\<lambda>c. [c]) (\<lambda>text. empty_doc) ?q ?c = ([], ?c)"
    by (rule conjunct1[OF conjunct2])
  with n have b: "search_graph_nlp (\<lambda>c. [c]) (\<lambda>text. empty_doc) ?q ?c = ([], ?c)"
    by blast
  have ne: "clean_entities crowded_answer \<noteq> []"
    unfolding crowded_entities by simp
  have m2: "(\<lambda>prompt::pystr. Some crowded_answer) (entity_prompt (str ''Who is A?'')) = Some crowded_answer"
    by (rule refl)
  note U = search_graph_no_entities[of "\<lambda>prompt. Some crowded_answer" "str ''Who is A?''" crowded_answer "\<lambda>c. [c]" ?c "\<lambda>text. empty_doc"]
  from U have "(\<lambda>prompt::pystr. Some crowded_answer) (entity_prompt (str ''Who is A?'')) = Some crowded_answer
        \<and> clean_entities crowded_answer \<noteq> [] \<longrightarrow>
        issued (snd (search_graph (\<lambda>c. [c]) (\<lambda>prompt. Some crowded_answer) (str ''Who is A?'') ?c)) =
          issued ?c @ [MatchNeighbours (clean_entities crowded_answer)]"
    by (rule conjunct1[OF conjunct2[OF conjunct2]])
  with m2 ne have d: "issued (snd (search_graph (\<lambda>c. [c]) (\<lambda>prompt. Some crowded_answer) (str ''Who is A?'') ?c)) =
          [] @ [MatchNeighbours (clean_entities crowded_answer)]"
    by simp
  show ?thesis
    by (intro conjI) (rule m, rule clean_blank_answer, rule a, rule n, rule b, rule d)
qed

section \<open>The visualization model builder\<close>

lemma set_first_occurrences: "set (first_occurrences xs) = set xs"
  by (induction xs rule: first_occurrences.induct) auto

lemma distinct_first_occurrences: "distinct (first_occurrences xs)"
  by (induction xs rule: first_occurrences.induct) (auto simp: set_first_occurrences)

lemma add_node_frame [simp]:
  "edges (add_node n st) = edges st" "edge_ids (add_node n st) = edge_ids st"
  "edge_labels (add_node n st) = edge_labels st"
  by (simp_all add: add_node_def)

lemma add_edge_frame [simp]:
  "nodes (add_edge s rel t st) = nodes st" "node_ids (add_edge s rel t st) = node_ids st"
  "node_labels (add_edge s rel t st) = node_labels st" "node_name_map (add_edge s rel t st) = node_name_map st"
  by (simp_all add: add_edge_def Let_def)

lemma fold_add_node:
  "nodes_inv st \<Longrightarrow>
   nodes_inv (fold add_node xs st) \<and>
   map v_id (nodes (fold add_node xs st)) =
     map v_id (nodes st) @ first_occurrences (filter (\<lambda>x. x \<notin> node_ids st) xs)"
proof (induction xs arbitrary: st)
  case Nil
  then show ?case by simp
next
  case (Cons x xs)
  show ?case
  proof (cases "x \<in> node_ids st")
    case True
    then have "add_node x st = st" by (simp add: add_node_def)
    with Cons True show ?thesis by simp
  next
    case False
    let ?st = "add_node x st"
    have ids: "node_ids ?st = insert x (node_ids st)" and ns: "map v_id (nodes ?st) = map v_id (nodes st) @ [x]"
      using False by (simp_all add: add_node_def)
    have inv: "nodes_inv ?st" using Cons.prems by (auto simp: nodes_inv_def ids ns)
    have f': "filter (\<lambda>y. y \<notin> node_ids st \<and> y \<noteq> x) xs = filter (\<lambda>y. y \<noteq> x \<and> y \<notin> node_ids st) xs"
      by (rule filter_cong) auto
    from Cons.IH[OF inv] False show ?thesis by (simp add: ids ns f')
  qed
qed

lemma visit_row_alt:
  "visit_row r st = fold put_edge (row_edges r) (fold add_node (row_names r) st)"
proof (cases "row_get r (str ''node'')")
  case None
  then show ?thesis by (simp add: visit_row_def row_edges_def row_names_def truthy_def)
next
  case s: (Some s)
  show ?thesis
  proof (cases "row_get r (str ''target'')")
    case None
    with s show ?thesis by (simp add: visit_row_def row_edges_def row_names_def truthy_def)
  next
    case t: (Some t)
    from s t show ?thesis
      by (simp add: visit_row_def row_edges_def row_names_def truthy_def put_edge_def Let_def)
  qed
qed


lemma add_node_add_edge: "add_node n (add_edge s rel t st) = add_edge s rel t (add_node n st)"
  by (simp add: add_node_def add_edge_def Let_def)

lemma add_node_put_edge: "add_node n (put_edge e st) = put_edge e (add_node n st)"
  by (cases e) (simp add: put_edge_def add_node_add_edge)

lemma fold_add_node_put_edge:
  "fold add_node xs (put_edge e st) = put_edge e (fold add_node xs st)"
  by (induction xs arbitrary: st) (simp_all add: add_node_put_edge)

lemma fold_add_node_fold_put_edge:
  "fold add_node xs (fold put_edge es st) = fold put_edge es (fold add_node xs st)"
  by (induction es arbitrary: st) (simp_all add: fold_add_node_put_edge)

lemma fold_visit_row:
  "fold visit_row rows st =
     fold put_edge (concat (map row_edges rows)) (fold add_node (concat (map row_names rows)) st)"
proof (induction rows arbitrary: st)
  case Nil
  then show ?case by simp
next
  case (Cons r rows)
  let ?es = "concat (map row_edges rows)" and ?ns = "concat (map row_names rows)"
  have "fold visit_row (r # rows) st = fold visit_row rows (visit_row r st)" by simp
  also have "\<dots> = fold put_edge ?es (fold add_node ?ns (visit_row r st))"
    by (rule Cons.IH)
  also have "\<dots> = fold put_edge ?es
      (fold add_node ?ns (fold put_edge (row_edges r) (fold add_node (row_names r) st)))"
    by (simp only: visit_row_alt)
  also have "\<dots> = fold put_edge ?es
      (fold put_edge (row_edges r) (fold add_node ?ns (fold add_node (row_names r) st)))"
    by (simp only: fold_add_node_fold_put_edge)
  also have "\<dots> = fold put_edge (concat (map row_edges (r # rows)))
      (fold add_node (concat (map row_names (r # rows))) st)"
    by simp
  finally show ?case .
qed

lemma put_edge_nodes: "nodes (fold put_edge es st) = nodes st \<and> node_ids (fold put_edge es st) = node_ids st"
  by (induction es arbitrary: st) (auto simp: put_edge_def)

lemma fold_add_node_edges:
  "edges (fold add_node xs st) = edges st \<and> edge_ids (fold add_node xs st) = edge_ids st"
  by (induction xs arbitrary: st) auto

lemma put_edge_old: "key_of e \<in> edge_ids st \<Longrightarrow> put_edge e st = st"
  by (cases e) (simp add: put_edge_def key_of_def add_edge_def)

lemma put_edge_new:
  "key_of e \<notin> edge_ids st \<Longrightarrow>
   edge_ids (put_edge e st) = insert (key_of e) (edge_ids st) \<and>
   map e_id (edges (put_edge e st)) = map e_id (edges st) @ [key_of e]"
  by (cases e) (simp add: put_edge_def key_of_def add_edge_def Let_def)

lemma fold_put_edge:
  "edges_inv st \<Longrightarrow>
   edges_inv (fold put_edge es st) \<and>
   map e_id (edges (fold put_edge es st)) =
     map e_id (edges st) @ first_occurrences (filter (\<lambda>k. k \<notin> edge_ids st) (map key_of es))"
proof (induction es arbitrary: st)
  case Nil
  then show ?case by simp
next
  case (Cons e es)
  show ?case
  proof (cases "key_of e \<in> edge_ids st")
    case True
    with Cons show ?thesis by (simp add: put_edge_old)
  next
    case False
    let ?st = "put_edge e st"
    note n = put_edge_new[OF False]
    have inv: "edges_inv ?st" using Cons.prems n by (auto simp: edges_inv_def)
    have f: "filter (\<lambda>y. y \<notin> edge_ids st \<and> y \<noteq> key_of e) (map key_of es) =
             filter (\<lambda>y. y \<noteq> key_of e \<and> y \<notin> edge_ids st) (map key_of es)"
      by (rule filter_cong) auto
    from Cons.IH[OF inv] False show ?thesis by (simp add: n f)
  qed
qed

lemma row_keys_edges: "row_keys r = map key_of (row_edges r)"
  by (simp add: row_keys_def row_edges_def key_of_def split: option.splits)

lemma incomplete_row: "\<not> row_complete r \<Longrightarrow> row_names r = [] \<and> row_edges r = []"
  by (auto simp: row_complete_def row_names_def row_edges_def truthy_def split: option.splits)

lemma concat_filter_complete:
  "concat (map row_names (filter row_complete rows)) = concat (map row_names rows) \<and>
   concat (map row_edges (filter row_complete rows)) = concat (map row_edges rows)"
  by (induction rows) (auto simp: incomplete_row)

lemma build_elements_alt:
  "build_elements rows =
     fold put_edge (concat (map row_edges rows)) (fold add_node (concat (map row_names rows)) empty_viz)"
  by (simp add: build_elements_def fold_visit_row)

lemma inv_empty: "nodes_inv empty_viz" "edges_inv empty_viz"
  by (simp_all add: nodes_inv_def edges_inv_def empty_viz_def)

lemma build_nodes:
  "map v_id (nodes (build_elements rows)) = first_occurrences (concat (map row_names rows)) \<and>
   node_ids (build_elements rows) = set (map v_id (nodes (build_elements rows)))"
proof -
  let ?ns = "concat (map row_names rows)"
  note a = fold_add_node[OF inv_empty(1), of ?ns]
  have "node_ids empty_viz = {}" "nodes empty_viz = []" by (simp_all add: empty_viz_def)
  with a have "map v_id (nodes (fold add_node ?ns empty_viz)) = first_occurrences ?ns"
    and "nodes_inv (fold add_node ?ns empty_viz)" by simp_all
  then show ?thesis
    by (simp add: build_elements_alt put_edge_nodes nodes_inv_def)
qed

lemma build_edges:
  "map e_id (edges (build_elements rows)) = first_occurrences (concat (map row_keys rows)) \<and>
   edge_ids (build_elements rows) = set (map e_id (edges (build_elements rows)))"
proof -
  let ?ns = "concat (map row_names rows)" and ?es = "concat (map row_edges rows)"
  let ?st = "fold add_node ?ns empty_viz"
  have e: "edges ?st = []" "edge_ids ?st = {}"
    by (simp_all add: fold_add_node_edges empty_viz_def)
  then have inv: "edges_inv ?st" by (simp add: edges_inv_def)
  have k: "map key_of ?es = concat (map row_keys rows)"
    by (induction rows) (simp_all add: row_keys_edges)
  from fold_put_edge[OF inv, of ?es]
  have i: "edges_inv (fold put_edge ?es ?st)"
    and m: "map e_id (edges (fold put_edge ?es ?st)) = first_occurrences (map key_of ?es)"
    by (simp_all add: e)
  show ?thesis
  proof (rule conjI)
    show "map e_id (edges (build_elements rows)) = first_occurrences (concat (map row_keys rows))"
      unfolding build_elements_alt m k ..
    show "edge_ids (build_elements rows) = set (map e_id (edges (build_elements rows)))"
      using i unfolding build_elements_alt edges_inv_def .
  qed
qed

lemma result_row_names:
  "a \<noteq> [] \<Longrightarrow> b \<noteq> [] \<Longrightarrow> row_names (result_row a r b) = [a, b]"
  by (simp add: row_names_def result_row_def row_get_def)

lemma result_row_keys:
  "a \<noteq> [] \<Longrightarrow> b \<noteq> [] \<Longrightarrow> row_keys (result_row a r b) = [a @ str ''-'' @ r @ str ''-'' @ b]"
  by (simp add: row_keys_def result_row_def row_get_def row_get_default_def edge_key_def py_format_def)

lemma example_names:
  "first_occurrences (concat (map row_names example_rows)) = [str ''A'', str ''B'', str ''C'']"
  by (simp add: example_rows_def result_row_names)

lemma example_keys:
  "first_occurrences (concat (map row_keys example_rows)) = [str ''A-FOUNDED-B'', str ''B-LOCATED_IN-C'']"
  by (simp add: example_rows_def result_row_keys)

lemma edge_key_joined:
  "edge_key (str ''A-R-B'') (Some (str ''R'')) (str ''C'') =
   edge_key (str ''A'') (Some (str ''R'')) (str ''B-R-C'')"
  by (simp add: edge_key_def py_format_def)

lemma result_row_edges:
  "a \<noteq> [] \<Longrightarrow> b \<noteq> [] \<Longrightarrow> row_edges (result_row a r b) = [(a, Some r, b)]"
  by (simp add: row_edges_def result_row_def row_get_def row_get_default_def)

lemma collision_edges:
  "concat (map row_edges collision_rows) =
     [(str ''A-R-B'', Some (str ''R''), str ''C''), (str ''A'', Some (str ''R''), str ''B-R-C'')]"
  by (simp add: collision_rows_def result_row_edges)

lemma collision_keys:
  "first_occurrences (concat (map row_keys collision_rows)) = [str ''A-R-B-R-C'']"
  by (simp add: collision_rows_def result_row_keys)

text \<open>
  Claim C6, as stated, deduplicates edges by the ordered (source, relationship, target).
  The source deduplicates by the string \<open>f"{src}-{rel}-{tgt}"\<close>: the rows
  \<open>(A-R-B, R, C)\<close> and \<open>(A, R, B-R-C)\<close> are two different ordered triples, both join to
  \<open>A-R-B-R-C\<close>, and the model holds one edge.
\<close>

theorem edge_key_collision_counterexample:
  "distinct (concat (map row_edges collision_rows)) \<and>
   length (concat (map row_edges collision_rows)) = 2 \<and>
   map e_id (edges (build_elements collision_rows)) = [str ''A-R-B-R-C''] \<and>
   length (edges (build_elements collision_rows)) = 1"
proof -
  have d: "distinct (concat (map row_edges collision_rows))"
    unfolding collision_edges by simp
  have l: "length (concat (map row_edges collision_rows)) = 2"
    unfolding collision_edges by simp
  have e: "map e_id (edges (build_elements collision_rows)) = [str ''A-R-B-R-C'']"
    using conjunct1[OF build_edges[of collision_rows]] unfolding collision_keys .
  have n: "length (edges (build_elements collision_rows)) = 1"
    using arg_cong[OF e, of length] by simp
  show ?thesis by (intro conjI) (rule d, rule l, rule e, rule n)
qed

text \<open>
  Claim C6, amended: for any sequence of rows, the model has one node per entity name,
  in the order of first occurrence, and one edge per edge key, the string made of
  source, relationship and target joined by \<open>-\<close>, in the order of first occurrence
  (rows with the same ordered triple have the same key and collapse to one edge; so do
  rows with different triples that join to the same string); rows without a source or a
  target name contribute nothing. For the rows \<open>(A, FOUNDED, B)\<close>, \<open>(A, FOUNDED, B)\<close>,
  \<open>(B, LOCATED_IN, C)\<close> the nodes are \<open>A\<close>, \<open>B\<close>, \<open>C\<close> and there are two edges.
\<close>

theorem build_elements_deduplicates:
  "map v_id (nodes (build_elements rows)) = first_occurrences (concat (map row_names rows))
   \<and> distinct (map v_id (nodes (build_elements rows)))
   \<and> map e_id (edges (build_elements rows)) = first_occurrences (concat (map row_keys rows))
   \<and> distinct (map e_id (edges (build_elements rows)))
   \<and> build_elements rows = build_elements (filter row_complete rows)
   \<and> map v_id (nodes (build_elements example_rows)) = [str ''A'', str ''B'', str ''C'']
   \<and> map e_id (edges (build_elements example_rows)) = [str ''A-FOUNDED-B'', str ''B-LOCATED_IN-C'']
   \<and> length (nodes (build_elements example_rows)) = 3
   \<and> length (edges (build_elements example_rows)) = 2"
proof -
  have n: "map v_id (nodes (build_elements rows)) = first_occurrences (concat (map row_names rows))" for rows
    by (simp add: build_nodes)
  have e: "map e_id (edges (build_elements rows)) = first_occurrences (concat (map row_keys rows))" for rows
    by (simp add: build_edges)
  have dn: "distinct (map v_id (nodes (build_elements rows)))"
    unfolding n by (rule distinct_first_occurrences)
  have de: "distinct (map e_id (edges (build_elements rows)))"
    unfolding e by (rule distinct_first_occurrences)
  have f: "build_elements rows = build_elements (filter row_complete rows)"
    by (simp only: build_elements_alt concat_filter_complete)
  have xn: "map v_id (nodes (build_elements example_rows)) = [str ''A'', str ''B'', str ''C'']"
    unfolding n by (rule example_names)
  have xe: "map e_id (edges (build_elements example_rows)) = [str ''A-FOUNDED-B'', str ''B-LOCATED_IN-C'']"
    unfolding e by (rule example_keys)
  have ln: "length (nodes (build_elements example_rows)) = 3"
    using arg_cong[OF xn, of length] by simp
  have le: "length (edges (build_elements example_rows)) = 2"
    using arg_cong[OF xe, of length] by simp
  show ?thesis
    by (intro conjI) (rule n, rule dn, rule e, rule de, rule f, rule xn, rule xe, rule ln, rule le)
qed

section \<open>Rows without a relationship\<close>







end
